theory Spec2Isabelle
  imports Complex_Main
begin

section \<open>Conventions of the embedding\<close>

text \<open>
  The program is the class \<open>LinearCRF\<close> of \<open>src/crf.py\<close>. Its instance is a record,
  its methods are functions taking the record. A Python exception is the \<open>Inl\<close> branch
  of a sum; statements run in the source's order, so the first exception raised is the
  one returned. numpy's float64 arrays are lists of reals: rounding, overflow and NaN
  are outside this model, so equalities proved here are exact equalities of the real
  numbers the arrays stand for. Positions in a sentence are naturals, the offsets of the
  feature templates are integers, and every index computed from them is checked the way
  Python checks it.
\<close>

datatype error = KeyError | IndexError | ValueError

definition rbind :: "error + 'a \<Rightarrow> ('a \<Rightarrow> error + 'b) \<Rightarrow> error + 'b" where
  "rbind r f = (case r of Inl e \<Rightarrow> Inl e | Inr v \<Rightarrow> f v)"

fun mapM :: "('a \<Rightarrow> error + 'b) \<Rightarrow> 'a list \<Rightarrow> error + 'b list" where
  "mapM f [] = Inr []"
| "mapM f (a # as) = rbind (f a) (\<lambda>b. rbind (mapM f as) (\<lambda>bs. Inr (b # bs)))"

fun foldM :: "('a \<Rightarrow> 's \<Rightarrow> error + 's) \<Rightarrow> 'a list \<Rightarrow> 's \<Rightarrow> error + 's" where
  "foldM f [] s = Inr s"
| "foldM f (a # as) s = rbind (f a s) (foldM f as)"

text \<open>\<open>d[k]\<close> on a dict: KeyError when the key is absent.\<close>

definition dict_get :: "('k \<rightharpoonup> 'v) \<Rightarrow> 'k \<Rightarrow> error + 'v" where
  "dict_get d k = (case d k of None \<Rightarrow> Inl KeyError | Some v \<Rightarrow> Inr v)"

text \<open>
  \<open>a[i]\<close> and \<open>a[i] = v\<close> on a list or on the first axis of an array: a negative index
  counts from the end, an index out of range raises IndexError.
\<close>

definition py_index :: "nat \<Rightarrow> int \<Rightarrow> error + nat" where
  "py_index len i =
     (if 0 \<le> i \<and> i < int len then Inr (nat i)
      else if i < 0 \<and> - int len \<le> i then Inr (nat (int len + i))
      else Inl IndexError)"

definition np_get :: "'a list \<Rightarrow> int \<Rightarrow> error + 'a" where
  "np_get xs i = rbind (py_index (length xs) i) (\<lambda>j. Inr (xs ! j))"

definition np_set :: "'a list \<Rightarrow> int \<Rightarrow> 'a \<Rightarrow> error + 'a list" where
  "np_set xs i v = rbind (py_index (length xs) i) (\<lambda>j. Inr (xs[j := v]))"

text \<open>\<open>np.zeros((r, c))\<close> and \<open>np.zeros((r, c, d))\<close>: a negative dimension raises ValueError.\<close>

definition np_zeros2 :: "int \<Rightarrow> nat \<Rightarrow> error + real list list" where
  "np_zeros2 r c = (if r < 0 then Inl ValueError else Inr (replicate (nat r) (replicate c 0)))"

definition np_zeros3 :: "int \<Rightarrow> nat \<Rightarrow> nat \<Rightarrow> error + real list list list" where
  "np_zeros3 r c d =
     (if r < 0 then Inl ValueError else Inr (replicate (nat r) (replicate c (replicate d 0))))"

text \<open>
  \<open>a + b\<close> on two one-dimensional arrays. Every operand in this program has \<open>ntags\<close>
  entries; arrays of different lengths are refused (numpy would also broadcast an array
  of length one, which no caller produces).
\<close>

definition np_add :: "real list \<Rightarrow> real list \<Rightarrow> error + real list" where
  "np_add a b = (if length a = length b then Inr (map2 (+) a b) else Inl ValueError)"

text \<open>\<open>M[i, t, :]\<close>, \<open>M[i, :, t]\<close> and \<open>M[i, s, t]\<close> on a three-dimensional array.\<close>

definition get_row :: "real list list list \<Rightarrow> int \<Rightarrow> nat \<Rightarrow> error + real list" where
  "get_row M i t = rbind (np_get M i) (\<lambda>Mi. np_get Mi (int t))"

definition get_col :: "real list list list \<Rightarrow> int \<Rightarrow> nat \<Rightarrow> error + real list" where
  "get_col M i t = rbind (np_get M i) (\<lambda>Mi. mapM (\<lambda>r. np_get r (int t)) Mi)"

definition get_cell :: "real list list list \<Rightarrow> int \<Rightarrow> nat \<Rightarrow> nat \<Rightarrow> error + real" where
  "get_cell M i s t = rbind (get_row M i s) (\<lambda>r. np_get r (int t))"

definition get2 :: "'a list list \<Rightarrow> int \<Rightarrow> nat \<Rightarrow> error + 'a" where
  "get2 a i t = rbind (np_get a i) (\<lambda>r. np_get r (int t))"

text \<open>\<open>np.max\<close> and \<open>np.argmax\<close> (the first index of the maximum); both refuse an empty array.\<close>

definition np_max :: "real list \<Rightarrow> error + real" where
  "np_max arr = (case arr of [] \<Rightarrow> Inl ValueError | a # as \<Rightarrow> Inr (fold max as a))"

fun first_index :: "real list \<Rightarrow> real \<Rightarrow> nat" where
  "first_index [] v = 0"
| "first_index (a # as) v = (if a = v then 0 else Suc (first_index as v))"

definition np_argmax :: "real list \<Rightarrow> error + nat" where
  "np_argmax arr = rbind (np_max arr) (\<lambda>max_value. Inr (first_index arr max_value))"

section \<open>The model object\<close>

text \<open>
  A feature is the tuple \<open>('U', pos, word, tag)\<close> or \<open>('B', pos, word, tag1, tag2)\<close>.
  Words and tags are the dense ids of \<open>word_index\<close> and \<open>tag_index\<close>.
\<close>

datatype feature = U int nat nat | B int nat nat nat

record crf =
  nwords :: nat
  index_word :: "nat \<rightharpoonup> string"
  word_index :: "string \<rightharpoonup> nat"
  nfeatures :: nat
  feature_index :: "feature \<rightharpoonup> nat"
  index_feature :: "nat \<rightharpoonup> feature"
  prior_feature_count :: "real list"
  nweights :: nat
  weights :: "real list"
  theta :: real
  train_data :: "(nat list \<times> nat list) list"

definition ntags :: nat where
  "ntags = 4"

definition index_tag :: "nat \<rightharpoonup> string" where
  "index_tag = [0 \<mapsto> ''B'', 1 \<mapsto> ''I'', 2 \<mapsto> ''E'', 3 \<mapsto> ''S'']"

definition tag_index :: "string \<rightharpoonup> nat" where
  "tag_index = [''B'' \<mapsto> 0, ''I'' \<mapsto> 1, ''E'' \<mapsto> 2, ''S'' \<mapsto> 3]"

definition start_char :: string where
  "start_char = ''<START>''"

definition end_char :: string where
  "end_char = ''<END>''"

definition start_tag :: string where
  "start_tag = ''S''"

definition end_tag :: string where
  "end_tag = ''S''"

definition start_index :: nat where
  "start_index = 3"

definition end_index :: nat where
  "end_index = 3"

definition U_feature_pos :: "int list" where
  "U_feature_pos = [-2, -1, 0, 1, 2]"

definition B_feature_pos :: "int list" where
  "B_feature_pos = [0]"

text \<open>The instance \<open>__init__\<close> builds.\<close>

definition init_crf :: crf where
  "init_crf = \<lparr> nwords = 2,
      index_word = [0 \<mapsto> start_char, 1 \<mapsto> end_char],
      word_index = [start_char \<mapsto> 0, end_char \<mapsto> 1],
      nfeatures = 0, feature_index = Map.empty, index_feature = Map.empty,
      prior_feature_count = [], nweights = 0, weights = [], theta = 1 / 10000,
      train_data = [] \<rparr>"

section \<open>Features and potentials\<close>

text \<open>
  \<open>feature_at\<close>: the indicator of feature \<open>k\<close>. Python's \<open>and\<close> evaluates \<open>x[i + pos]\<close>
  only after the bounds before it; the bigram branch has no upper bound, so there the
  read can raise IndexError.
\<close>

definition feature_at :: "crf \<Rightarrow> nat \<Rightarrow> nat list \<Rightarrow> nat \<Rightarrow> nat \<Rightarrow> nat \<Rightarrow> error + nat" where
  "feature_at m k x yi_1 yi i =
     rbind (dict_get (index_feature m) k) (\<lambda>feature.
       case feature of
         U pos word tag \<Rightarrow>
           Inr (if int i + pos \<ge> 0 \<and> int i + pos \<le> int (length x) - 1 \<and> yi = tag
                   \<and> x ! nat (int i + pos) = word then 1 else 0)
       | B pos word tag1 tag2 \<Rightarrow>
           if int i + pos \<ge> 1
           then rbind (np_get x (int i + pos)) (\<lambda>w.
                  Inr (if w = word \<and> yi_1 = tag1 \<and> yi = tag2 then 1 else 0))
           else Inr 0)"

text \<open>
  The keys \<open>log_potential_at\<close>, \<open>model_gradient_x\<close> and \<open>train\<close> look up at position \<open>i\<close>,
  in the order of the two loops over the templates.
\<close>

definition active_keys :: "nat list \<Rightarrow> nat \<Rightarrow> nat \<Rightarrow> nat \<Rightarrow> feature list" where
  "active_keys x yi_1 yi i =
     map (\<lambda>pos. U pos (x ! nat (pos + int i)) yi)
       (filter (\<lambda>pos. pos + int i \<ge> 0 \<and> pos + int i < int (length x)) U_feature_pos) @
     map (\<lambda>pos. B pos (x ! nat (pos + int i)) yi_1 yi)
       (filter (\<lambda>pos. pos + int i \<ge> 1 \<and> pos + int i < int (length x)) B_feature_pos)"

definition active_ids :: "crf \<Rightarrow> nat list \<Rightarrow> nat \<Rightarrow> nat \<Rightarrow> nat \<Rightarrow> error + nat list" where
  "active_ids m x yi_1 yi i = mapM (dict_get (feature_index m)) (active_keys x yi_1 yi i)"

definition log_potential_at :: "crf \<Rightarrow> nat list \<Rightarrow> nat \<Rightarrow> nat \<Rightarrow> nat \<Rightarrow> error + real" where
  "log_potential_at m x yi_1 yi i =
     rbind (active_ids m x yi_1 yi i) (\<lambda>activate_feature.
     rbind (mapM (\<lambda>k. np_get (weights m) (int k)) activate_feature) (\<lambda>ws.
       Inr (sum_list ws)))"

text \<open>
  \<open>log_potential_matrix\<close>: \<open>M[0]\<close> keeps the zeros of \<open>np.zeros\<close>, the loops fill
  \<open>M[1]\<close> to \<open>M[nwords_x + 1]\<close> cell by cell in row-major order.
\<close>

definition log_potential_matrix :: "crf \<Rightarrow> nat list \<Rightarrow> error + real list list list" where
  "log_potential_matrix m x =
     (let nwords_x = int (length x) - 2 in
      rbind (np_zeros3 (nwords_x + 2) ntags ntags) (\<lambda>M.
      rbind (mapM (\<lambda>i. mapM (\<lambda>tag1. mapM (\<lambda>tag2. log_potential_at m x tag1 tag2 i)
                [0..<ntags]) [0..<ntags]) [1..<nat (nwords_x + 2)]) (\<lambda>rows.
        Inr (take 1 M @ rows))))"

definition log_sum_exp :: "real list \<Rightarrow> error + real" where
  "log_sum_exp arr =
     rbind (np_max arr) (\<lambda>max_value.
       Inr (max_value + ln (sum_list (map (\<lambda>a. exp (a - max_value)) arr))))"

definition default_M :: "crf \<Rightarrow> nat list \<Rightarrow> real list list list option
    \<Rightarrow> error + real list list list" where
  "default_M m x M = (case M of None \<Rightarrow> log_potential_matrix m x | Some M' \<Rightarrow> Inr M')"

section \<open>Forward, backward and the partition function\<close>

text \<open>
  Each pass of the loop over \<open>tag\<close> writes \<open>alpha[i, tag]\<close> and reads only row \<open>i - 1\<close>,
  so the model computes row \<open>i\<close> from row \<open>i - 1\<close> and stores it.
\<close>

definition log_alpha :: "crf \<Rightarrow> nat list \<Rightarrow> real list list list option
    \<Rightarrow> error + real list list" where
  "log_alpha m x M =
     (let nwords_x = int (length x) - 2 in
      rbind (np_zeros2 (nwords_x + 1) ntags) (\<lambda>alpha.
      rbind (default_M m x M) (\<lambda>M.
      rbind (get_row M 1 start_index) (\<lambda>r.
      rbind (np_set alpha 1 r) (\<lambda>alpha.
        foldM (\<lambda>i alpha.
            rbind (mapM (\<lambda>tag.
                rbind (np_get alpha (int i - 1)) (\<lambda>prev.
                rbind (get_col M (int i) tag) (\<lambda>c.
                rbind (np_add prev c) log_sum_exp))) [0..<ntags]) (\<lambda>row.
              np_set alpha (int i) row))
          [2..<nat (nwords_x + 1)] alpha)))))"

text \<open>The loop of \<open>log_beta\<close> runs \<open>index = nwords_x - i\<close> for \<open>i = 1, ..., nwords_x - 1\<close>.\<close>

definition log_beta :: "crf \<Rightarrow> nat list \<Rightarrow> real list list list option
    \<Rightarrow> error + real list list" where
  "log_beta m x M =
     (let nwords_x = int (length x) - 2 in
      rbind (np_zeros2 (nwords_x + 1) ntags) (\<lambda>beta.
      rbind (default_M m x M) (\<lambda>M.
      rbind (get_col M (nwords_x + 1) end_index) (\<lambda>c.
      rbind (np_set beta nwords_x c) (\<lambda>beta.
        foldM (\<lambda>i beta.
            (let index = nwords_x - int i in
             rbind (mapM (\<lambda>tag.
                 rbind (np_get beta (index + 1)) (\<lambda>next.
                 rbind (get_row M (index + 1) tag) (\<lambda>r.
                 rbind (np_add next r) log_sum_exp))) [0..<ntags]) (\<lambda>row.
               np_set beta index row)))
          [1..<nat nwords_x] beta)))))"

definition default_alpha :: "crf \<Rightarrow> nat list \<Rightarrow> real list list list
    \<Rightarrow> real list list option \<Rightarrow> error + real list list" where
  "default_alpha m x M alpha =
     (case alpha of None \<Rightarrow> log_alpha m x (Some M) | Some a \<Rightarrow> Inr a)"

definition default_beta :: "crf \<Rightarrow> nat list \<Rightarrow> real list list list
    \<Rightarrow> real list list option \<Rightarrow> error + real list list" where
  "default_beta m x M beta =
     (case beta of None \<Rightarrow> log_beta m x (Some M) | Some b \<Rightarrow> Inr b)"

definition log_z :: "crf \<Rightarrow> nat list \<Rightarrow> real list list list option
    \<Rightarrow> real list list option \<Rightarrow> error + real" where
  "log_z m x M alpha =
     (let nwords_x = int (length x) - 2 in
      rbind (default_M m x M) (\<lambda>M.
      rbind (default_alpha m x M alpha) (\<lambda>alpha.
      rbind (np_get alpha nwords_x) (\<lambda>a.
      rbind (get_col M (nwords_x + 1) end_index) (\<lambda>c.
      rbind (np_add a c) log_sum_exp)))))"

text \<open>
  \<open>path_potential\<close> is the loop of \<open>log_potential\<close> (lines 203 to 205): the sum of the
  potentials of the transitions at the positions \<open>1, ..., len(y) - 2\<close>.
\<close>

definition path_potential :: "crf \<Rightarrow> nat list \<Rightarrow> nat list \<Rightarrow> error + real" where
  "path_potential m x y =
     (let nwords_x = int (length y) - 2 in
      foldM (\<lambda>i log_p.
          rbind (np_get y (int i - 1)) (\<lambda>yi_1.
          rbind (np_get y (int i)) (\<lambda>yi.
          rbind (log_potential_at m x yi_1 yi i) (\<lambda>v. Inr (log_p + v)))))
        [1..<nat (nwords_x + 1)] 0)"

definition log_potential :: "crf \<Rightarrow> nat list \<Rightarrow> nat list \<Rightarrow> real list list list option
    \<Rightarrow> real list list option \<Rightarrow> error + real" where
  "log_potential m x y M alpha =
     rbind (default_M m x M) (\<lambda>M.
     rbind (default_alpha m x M alpha) (\<lambda>alpha.
     rbind (path_potential m x y) (\<lambda>log_p.
     rbind (log_z m x (Some M) (Some alpha)) (\<lambda>z.
       Inr (log_p - z)))))"

section \<open>Viterbi decoding\<close>

text \<open>
  \<open>viterbi_tables\<close> is the first half of \<open>inference_viterbi\<close> (lines 217 to 228): the
  tables \<open>delta\<close> and \<open>trace\<close>. As in \<open>log_alpha\<close>, row \<open>i\<close> is computed from row
  \<open>i - 1\<close> and stored.
\<close>

definition viterbi_tables :: "crf \<Rightarrow> nat list \<Rightarrow> real list list list option
    \<Rightarrow> error + (real list list \<times> nat list list)" where
  "viterbi_tables m x M =
     (let nwords_x = int (length x) - 2 in
      rbind (np_zeros2 (nwords_x + 1) ntags) (\<lambda>delta.
      (let trace = replicate (nat (nwords_x + 1)) (replicate ntags (0::nat)) in
      rbind (default_M m x M) (\<lambda>M.
      rbind (get_row M 1 start_index) (\<lambda>r.
      rbind (np_set delta 1 r) (\<lambda>delta.
        foldM (\<lambda>i (delta, trace).
            rbind (mapM (\<lambda>tag.
                rbind (np_get delta (int i - 1)) (\<lambda>prev.
                rbind (get_col M (int i) tag) (\<lambda>c.
                rbind (np_add prev c) (\<lambda>s.
                rbind (np_max s) (\<lambda>d.
                rbind (np_argmax s) (\<lambda>t. Inr (d, t))))))) [0..<ntags]) (\<lambda>row.
            rbind (np_set delta (int i) (map fst row)) (\<lambda>delta.
            rbind (np_set trace (int i) (map snd row)) (\<lambda>trace.
              Inr (delta, trace)))))
          [2..<nat (nwords_x + 1)] (delta, trace)))))))"

text \<open>The \<open>while index > 0\<close> loop, by recursion on \<open>index\<close>.\<close>

fun backtrace :: "nat list list \<Rightarrow> nat \<Rightarrow> nat \<Rightarrow> string list \<Rightarrow> error + string list" where
  "backtrace trace 0 best y_char = Inr y_char"
| "backtrace trace (Suc k) best y_char =
     rbind (get2 trace (int (Suc k) + 1) best) (\<lambda>best.
     rbind (dict_get index_tag best) (\<lambda>c.
     rbind (np_set y_char (int (Suc k) - 1) c) (\<lambda>y_char.
       backtrace trace k best y_char)))"

definition inference_viterbi :: "crf \<Rightarrow> nat list \<Rightarrow> real list list list option
    \<Rightarrow> error + string list" where
  "inference_viterbi m x M =
     (let nwords_x = int (length x) - 2 in
      rbind (viterbi_tables m x M) (\<lambda>(delta, trace).
      (let y_char = replicate (nat nwords_x) start_tag in
      rbind (np_get delta nwords_x) (\<lambda>d.
      rbind (np_argmax d) (\<lambda>best.
      rbind (dict_get index_tag best) (\<lambda>c.
      rbind (np_set y_char (nwords_x - 1) c) (\<lambda>y_char.
        backtrace trace (nat (nwords_x - 1)) best y_char)))))))"

section \<open>Expected feature counts and the gradient\<close>

text \<open>
  \<open>transition_table\<close> is the table \<open>P\<close> of \<open>model_gradient_x\<close> (lines 259 to 269): the
  cells the loop skips with \<open>continue\<close>, and the whole of \<open>P[0]\<close>, keep the zero of
  \<open>np.zeros\<close>; then \<open>np.exp\<close> is applied to every cell.
\<close>

definition transition_table :: "nat list \<Rightarrow> real list list list \<Rightarrow> real list list
    \<Rightarrow> real list list \<Rightarrow> real \<Rightarrow> error + real list list list" where
  "transition_table x M alpha beta z =
     (let nwords_x = int (length x) - 2 in
      rbind (np_zeros3 (nwords_x + 1) ntags ntags) (\<lambda>P.
      rbind (mapM (\<lambda>i. mapM (\<lambda>yi_1. mapM (\<lambda>yi.
                if i = 1 \<and> yi_1 \<noteq> start_index then Inr 0
                else rbind (get2 alpha (int i - 1) yi_1) (\<lambda>a.
                     rbind (get_cell M (int i) yi_1 yi) (\<lambda>v.
                     rbind (get2 beta (int i) yi) (\<lambda>b.
                       Inr (a + v + b - z)))))
              [0..<ntags]) [0..<ntags]) [1..<nat (nwords_x + 1)]) (\<lambda>rows.
        Inr (map (map (map exp)) (take 1 P @ rows)))))"

text \<open>
  \<open>g[ids] += v\<close> with a list of indices: numpy reads \<open>g[ids]\<close>, adds \<open>v\<close> and writes the
  result back, so an index that occurs several times in \<open>ids\<close> is incremented once.
\<close>

definition np_iadd_at :: "real list \<Rightarrow> nat list \<Rightarrow> real \<Rightarrow> error + real list" where
  "np_iadd_at g ids v =
     (if list_all (\<lambda>k. k < length g) ids
      then Inr (map (\<lambda>k. if k \<in> set ids then g ! k + v else g ! k) [0..<length g])
      else Inl IndexError)"

text \<open>The index triples of the three nested loops over \<open>i\<close>, \<open>yi_1\<close> and \<open>yi\<close>, in loop order.\<close>

definition transitions :: "int \<Rightarrow> (nat \<times> nat \<times> nat) list" where
  "transitions nwords_x =
     concat (map (\<lambda>i. concat (map (\<lambda>yi_1. map (\<lambda>yi. (i, yi_1, yi)) [0..<ntags]) [0..<ntags]))
       [1..<nat (nwords_x + 1)])"

text \<open>
  The second loop nest of \<open>model_gradient_x\<close> (lines 270 to 281). The list
  \<open>activate_feature\<close> is created once, before the loops, and only ever appended to.
\<close>

definition accumulate :: "crf \<Rightarrow> nat list \<Rightarrow> real list list list \<Rightarrow> nat \<times> nat \<times> nat
    \<Rightarrow> nat list \<times> real list \<Rightarrow> error + (nat list \<times> real list)" where
  "accumulate m x P t s =
     (case t of (i, yi_1, yi) \<Rightarrow> case s of (activate_feature, gradient) \<Rightarrow>
        rbind (active_ids m x yi_1 yi i) (\<lambda>ids.
        (let activate_feature = activate_feature @ ids in
         rbind (get_cell P (int i) yi_1 yi) (\<lambda>p.
         rbind (np_iadd_at gradient activate_feature p) (\<lambda>gradient.
           Inr (activate_feature, gradient))))))"

definition model_gradient_x :: "crf \<Rightarrow> nat list \<Rightarrow> real list list list option
    \<Rightarrow> real list list option \<Rightarrow> real list list option \<Rightarrow> error + real list" where
  "model_gradient_x m x M alpha beta =
     (let nwords_x = int (length x) - 2 in
      rbind (default_M m x M) (\<lambda>M.
      rbind (default_alpha m x M alpha) (\<lambda>alpha.
      rbind (default_beta m x M beta) (\<lambda>beta.
      rbind (log_z m x (Some M) (Some alpha)) (\<lambda>z.
      rbind (transition_table x M alpha beta z) (\<lambda>P.
      rbind (foldM (accumulate m x P) (transitions nwords_x)
               ([], replicate (length (weights m)) 0)) (\<lambda>(activate_feature, gradient).
        Inr gradient)))))))"

definition log_maximum_liklihood :: "crf \<Rightarrow> error + real" where
  "log_maximum_liklihood m =
     rbind (foldM (\<lambda>(x, y) log_ML.
              rbind (log_potential m x y None None) (\<lambda>v. Inr (log_ML + v)))
            (train_data m) 0) (\<lambda>log_ML.
       Inr (log_ML - (\<Sum>w\<leftarrow>weights m. w * w) * theta m / 2))"

definition np_sub :: "real list \<Rightarrow> real list \<Rightarrow> error + real list" where
  "np_sub a b = (if length a = length b then Inr (map2 (-) a b) else Inl ValueError)"

definition model_gradient :: "crf \<Rightarrow> error + real list" where
  "model_gradient m =
     rbind (np_sub (prior_feature_count m) (map (\<lambda>w. w * theta m) (weights m))) (\<lambda>gradient.
       foldM (\<lambda>(x, y) gradient.
           rbind (model_gradient_x m x None None None) (np_sub gradient))
         (train_data m) gradient)"

text \<open>The two callables handed to the optimizer: each stores its argument in \<open>self.weights\<close>.\<close>

definition ncallable :: "crf \<Rightarrow> real list \<Rightarrow> error + (real \<times> crf)" where
  "ncallable m w =
     (let m = m\<lparr>weights := w\<rparr> in
      rbind (log_maximum_liklihood m) (\<lambda>v. Inr (- v, m)))"

definition njac_callable :: "crf \<Rightarrow> real list \<Rightarrow> error + (real list \<times> crf)" where
  "njac_callable m w =
     (let m = m\<lparr>weights := w\<rparr> in
      rbind (model_gradient m) (\<lambda>g. Inr (map uminus g, m)))"

section \<open>Training\<close>

text \<open>
  A line of the corpus file is \<open>Blank\<close> when \<open>len(line) < 2\<close>, and otherwise carries the
  fields of \<open>line.split()\<close>; unpacking anything but two fields raises ValueError.
\<close>

datatype line = Blank | Fields "string list"

type_synonym reader = "crf \<times> string list \<times> string list \<times> string list list \<times> string list list"

definition read_line :: "line \<Rightarrow> reader \<Rightarrow> error + reader" where
  "read_line l s =
     (case s of (m, sentence, label, sentences, labels) \<Rightarrow>
        case l of
          Blank \<Rightarrow>
            Inr (m, [start_char], [start_tag],
                 sentences @ [sentence @ [end_char]], labels @ [label @ [end_tag]])
        | Fields fs \<Rightarrow>
            (case fs of
               [char, tag] \<Rightarrow>
                 Inr (if char \<in> dom (word_index m) then m
                      else m\<lparr> word_index := (word_index m)(char \<mapsto> nwords m),
                              index_word := (index_word m)(nwords m \<mapsto> char),
                              nwords := nwords m + 1 \<rparr>,
                      sentence @ [char], label @ [tag], sentences, labels)
             | _ \<Rightarrow> Inl ValueError))"

text \<open>The enumeration of the feature space (lines 355 to 376).\<close>

definition add_feature :: "feature \<Rightarrow> nat \<times> (feature \<rightharpoonup> nat) \<times> (nat \<rightharpoonup> feature)
    \<Rightarrow> nat \<times> (feature \<rightharpoonup> nat) \<times> (nat \<rightharpoonup> feature)" where
  "add_feature feature s =
     (case s of (feature_id, fi, ife) \<Rightarrow>
        (feature_id + 1, fi(feature \<mapsto> feature_id), ife(feature_id \<mapsto> feature)))"

definition U_features :: "nat \<Rightarrow> feature list" where
  "U_features n =
     concat (map (\<lambda>pos. concat (map (\<lambda>word. map (\<lambda>tag. U pos word tag) [0..<ntags]) [0..<n]))
       U_feature_pos)"

definition B_features :: "nat \<Rightarrow> feature list" where
  "B_features n =
     concat (map (\<lambda>pos. concat (map (\<lambda>word. concat (map (\<lambda>yi_1.
         map (\<lambda>yi. B pos word yi_1 yi) [0..<ntags]) [0..<ntags])) [0..<n]))
       B_feature_pos)"

definition enumerate_features :: "crf \<Rightarrow> crf" where
  "enumerate_features m =
     (case fold add_feature (U_features (nwords m) @ B_features (nwords m))
             (0, feature_index m, index_feature m) of
        (feature_id, fi, ife) \<Rightarrow>
          m\<lparr> feature_index := fi, index_feature := ife, nfeatures := feature_id,
             nweights := feature_id, prior_feature_count := replicate feature_id 0,
             weights := replicate feature_id (1 / real feature_id) \<rparr>)"

text \<open>The empirical counts \<open>C(y, x)\<close> (lines 390 to 402); here the list is rebuilt at every position.\<close>

definition count_features :: "crf \<Rightarrow> nat list \<times> nat list \<Rightarrow> real list \<Rightarrow> error + real list" where
  "count_features m xy prior =
     (case xy of (x, y) \<Rightarrow>
        foldM (\<lambda>i prior.
            rbind (np_get y (int i)) (\<lambda>yi.
            rbind (np_get y (int i - 1)) (\<lambda>yi_1.
            rbind (active_ids m x yi_1 yi i) (\<lambda>activate_feature.
              np_iadd_at prior activate_feature 1))))
          [1..<nat (int (length x) - 2 + 1)] prior)"

definition train_setup :: "crf \<Rightarrow> line list \<Rightarrow> error + crf" where
  "train_setup m lines =
     rbind (foldM read_line lines (m, [start_char], [start_tag], [], [])) (\<lambda>s.
     case s of (m, sentence, label, sentences, labels) \<Rightarrow>
       rbind (np_get sentences 0) (\<lambda>s0.
       rbind (np_get labels 0) (\<lambda>l0.
       (let m = enumerate_features m in
        rbind (mapM (mapM (dict_get (word_index m))) sentences) (\<lambda>sentences.
        rbind (mapM (mapM (dict_get tag_index)) labels) (\<lambda>labels.
        (let m = m\<lparr>train_data := zip sentences labels\<rparr> in
         rbind (foldM (count_features m) (train_data m) (prior_feature_count m)) (\<lambda>prior.
           Inr (m\<lparr>prior_feature_count := prior\<rparr>)))))))))"

text \<open>
  The optimizer is outside the repository. All the program lets it do is call the two
  callables, any number of times and at points of its choice, and return a vector and a
  success flag: an interaction tree. \<open>minimize\<close> runs such a tree against the model.
\<close>

datatype optimizer =
    Return "real list" bool
  | CallFun "real list" "real \<Rightarrow> optimizer"
  | CallJac "real list" "real list \<Rightarrow> optimizer"

primrec minimize :: "optimizer \<Rightarrow> crf \<Rightarrow> error + ((real list \<times> bool) \<times> crf)" where
  "minimize (Return res_x success) = (\<lambda>m. Inr ((res_x, success), m))"
| "minimize (CallFun w k) = (\<lambda>m. rbind (ncallable m w) (\<lambda>(v, m). minimize (k v) m))"
| "minimize (CallJac w k) = (\<lambda>m. rbind (njac_callable m w) (\<lambda>(g, m). minimize (k g) m))"

text \<open>
  \<open>save\<close> pickles these fields into the model file. The file system is the optional
  \<open>model_file\<close> returned next to the model; of the printed lines only the last is kept.
\<close>

record model_file =
  saved_nwords :: nat
  saved_nfeatures :: nat
  saved_feature_index :: "feature \<rightharpoonup> nat"
  saved_index_feature :: "nat \<rightharpoonup> feature"
  saved_index_word :: "nat \<rightharpoonup> string"
  saved_word_index :: "string \<rightharpoonup> nat"
  saved_prior_feature_count :: "real list"
  saved_nweights :: nat
  saved_weights :: "real list"

definition save :: "crf \<Rightarrow> model_file" where
  "save m = \<lparr> saved_nwords = nwords m, saved_nfeatures = nfeatures m,
      saved_feature_index = feature_index m, saved_index_feature = index_feature m,
      saved_index_word = index_word m, saved_word_index = word_index m,
      saved_prior_feature_count = prior_feature_count m, saved_nweights = nweights m,
      saved_weights = weights m \<rparr>"

text \<open>Lines 404 to 420 of \<open>train\<close>: the two timed calls, the optimizer, and the branch on its flag.\<close>

definition train_optimize :: "(real list \<Rightarrow> optimizer) \<Rightarrow> crf
    \<Rightarrow> error + (crf \<times> model_file option \<times> string)" where
  "train_optimize scipy_minimize m =
     rbind (ncallable m (weights m)) (\<lambda>(v, m).
     rbind (njac_callable m (weights m)) (\<lambda>(g, m).
     rbind (minimize (scipy_minimize (weights m)) m) (\<lambda>(res, m).
       case res of (res_x, res_success) \<Rightarrow>
         if res_success
         then (let m = m\<lparr>weights := res_x\<rparr> in Inr (m, Some (save m), ''Save model successful!''))
         else Inr (m, None, ''Fail to optimize CRF!''))))"

definition train :: "(real list \<Rightarrow> optimizer) \<Rightarrow> crf \<Rightarrow> line list
    \<Rightarrow> error + (crf \<times> model_file option \<times> string)" where
  "train scipy_minimize m lines = rbind (train_setup m lines) (train_optimize scipy_minimize)"

section \<open>Running the error monad\<close>

lemma rbind_Inr [simp]: "rbind (Inr v) f = f v"
  by (simp add: rbind_def)

lemma rbind_Inl [simp]: "rbind (Inl e) f = Inl e"
  by (simp add: rbind_def)

lemma mapM_Inr: "(\<And>a. a \<in> set as \<Longrightarrow> f a = Inr (g a)) \<Longrightarrow> mapM f as = Inr (map g as)"
  by (induction as) simp_all

lemma mapM_Inl:
  "(\<And>a. a \<in> set as \<Longrightarrow> f a = Inl e \<or> (\<exists>b. f a = Inr b)) \<Longrightarrow> \<exists>a \<in> set as. f a = Inl e
     \<Longrightarrow> mapM f as = Inl e"
proof (induction as)
  case Nil
  then show ?case by simp
next
  case (Cons a as)
  show ?case
  proof (cases "f a")
    case (Inl e')
    with Cons.prems(1)[of a] show ?thesis by simp
  next
    case (Inr b)
    with Cons.prems(2) have "\<exists>a \<in> set as. f a = Inl e" by auto
    with Cons.IH Cons.prems(1) have "mapM f as = Inl e" by simp
    with Inr show ?thesis by simp
  qed
qed

lemma foldM_append: "foldM f (as @ bs) s = rbind (foldM f as s) (foldM f bs)"
  by (induction as arbitrary: s) (simp_all add: rbind_def split: sum.splits)

lemma foldM_upt_rule:
  assumes "lo \<le> hi" and "I lo s"
    and "\<And>i s. lo \<le> i \<Longrightarrow> i < hi \<Longrightarrow> I i s \<Longrightarrow> \<exists>s'. f i s = Inr s' \<and> I (Suc i) s'"
  shows "\<exists>s'. foldM f [lo..<hi] s = Inr s' \<and> I hi s'"
  using assms(1,3)
proof (induction hi)
  case 0
  with assms(2) show ?case by simp
next
  case (Suc hi)
  show ?case
  proof (cases "lo = Suc hi")
    case True
    with assms(2) show ?thesis by simp
  next
    case False
    with Suc.prems have le: "lo \<le> hi" by simp
    from Suc.IH[OF le] Suc.prems(2) obtain s1 where s1: "foldM f [lo..<hi] s = Inr s1" "I hi s1"
      by (metis less_Suc_eq)
    from Suc.prems(2)[OF le _ s1(2)] obtain s2 where "f hi s1 = Inr s2" "I (Suc hi) s2" by auto
    with s1 le show ?thesis by (simp add: foldM_append)
  qed
qed

lemma py_index_nat [simp]:
  "py_index len (int i) = (if i < len then Inr i else Inl IndexError)"
  by (simp add: py_index_def)

lemma np_get_nat [simp]:
  "np_get xs (int i) = (if i < length xs then Inr (xs ! i) else Inl IndexError)"
  by (simp add: np_get_def)

lemma np_set_nat [simp]:
  "np_set xs (int i) v = (if i < length xs then Inr (xs[i := v]) else Inl IndexError)"
  by (simp add: np_set_def)

lemma ntags_upt: "[0..<ntags] = [0, 1, 2, 3]"
  by (simp add: ntags_def upt_rec)

section \<open>The enumerated feature space\<close>

text \<open>
  \<open>all_features n\<close> is the order in which \<open>train\<close> enumerates the features of a
  vocabulary of \<open>n\<close> words: the unigram loops, then the bigram loops.
\<close>

definition all_features :: "nat \<Rightarrow> feature list" where
  "all_features n = U_features n @ B_features n"

lemma U_features_product:
  "U_features n = map (\<lambda>(pos, word, tag). U pos word tag)
     (List.product U_feature_pos (List.product [0..<n] [0..<ntags]))"
  by (simp add: U_features_def product_concat_map map_concat comp_def)

lemma B_features_product:
  "B_features n = map (\<lambda>(pos, word, yi_1, yi). B pos word yi_1 yi)
     (List.product B_feature_pos (List.product [0..<n] (List.product [0..<ntags] [0..<ntags])))"
  by (simp add: B_features_def product_concat_map map_concat comp_def)

lemma set_U_features:
  "set (U_features n) = {U pos word tag | pos word tag. pos \<in> set U_feature_pos \<and> word < n \<and> tag < ntags}"
  by (auto simp: U_features_product image_iff)

lemma set_B_features:
  "set (B_features n) = {B pos word s t | pos word s t. pos \<in> set B_feature_pos \<and> word < n \<and> s < ntags \<and> t < ntags}"
  by (auto simp: B_features_product image_iff)

lemma distinct_all_features: "distinct (all_features n)"
proof -
  have "distinct U_feature_pos" "distinct B_feature_pos"
    by (simp_all add: U_feature_pos_def B_feature_pos_def)
  then have "distinct (List.product U_feature_pos (List.product [0..<n] [0..<ntags]))"
    "distinct (List.product B_feature_pos
       (List.product [0..<n] (List.product [0..<ntags] [0..<ntags])))"
    by (simp_all add: distinct_product)
  then have "distinct (U_features n)" "distinct (B_features n)"
    unfolding U_features_product B_features_product
    by (simp_all add: distinct_map inj_on_def)
  moreover note this(2)
  moreover have "set (U_features n) \<inter> set (B_features n) = {}"
    by (auto simp: set_U_features set_B_features)
  ultimately show ?thesis by (simp add: all_features_def)
qed

lemma length_all_features: "length (all_features n) = 5 * n * ntags + n * ntags ^ 2"
  by (simp add: all_features_def U_features_product B_features_product U_feature_pos_def
      B_feature_pos_def power2_eq_square)

lemma fold_add_feature:
  "distinct fs \<Longrightarrow> fold add_feature fs (c, fi, ife) =
     (c + length fs, fi ++ map_of (zip fs [c..<c + length fs]),
      ife ++ map_of (zip [c..<c + length fs] fs))"
proof (induction fs arbitrary: c fi ife)
  case Nil
  then show ?case by simp
next
  case (Cons f fs)
  define N where "N = [Suc c..<Suc c + length fs]"
  have len: "length N = length fs" and cN: "c \<notin> set N"
    by (simp_all add: N_def del: upt_Suc)
  have nin: "f \<notin> dom (map_of (zip fs N))"
    using Cons.prems len by (auto simp: dom_def map_of_zip_is_None)
  have nin2: "c \<notin> dom (map_of (zip N fs))"
    using cN len by (auto simp: dom_def map_of_zip_is_None)
  have u: "[c..<c + length (f # fs)] = c # N"
    by (simp add: N_def upt_conv_Cons del: upt_Suc)
  have "fold add_feature (f # fs) (c, fi, ife) = fold add_feature fs (Suc c, fi(f \<mapsto> c), ife(c \<mapsto> f))"
    by (simp add: add_feature_def)
  also have "\<dots> = (Suc c + length fs, fi(f \<mapsto> c) ++ map_of (zip fs N),
      ife(c \<mapsto> f) ++ map_of (zip N fs))"
    unfolding N_def using Cons.prems Cons.IH[of "Suc c"] by simp
  also have "\<dots> = (c + length (f # fs), fi ++ map_of (zip (f # fs) (c # N)),
      ife ++ map_of (zip (c # N) (f # fs)))"
    using map_add_upd_left[OF nin, of fi c] map_add_upd_left[OF nin2, of ife f]
    by simp
  finally show ?case unfolding u .
qed

section \<open>Log-sum-exp\<close>

lemma sum_list_exp_pos: "v \<noteq> [] \<Longrightarrow> 0 < (\<Sum>a\<leftarrow>v. exp (a::real))"
  by (cases v) (auto intro!: add_pos_nonneg sum_list_nonneg)

lemma sum_list_exp_shift: "(\<Sum>a\<leftarrow>v. exp (a - c)) = exp (- c) * (\<Sum>a\<leftarrow>v. exp (a::real))"
  by (induction v) (auto simp: exp_diff exp_minus field_simps)

lemma lse_shifted: "v \<noteq> [] \<Longrightarrow> c + ln (\<Sum>a\<leftarrow>v. exp (a - c)) = ln (\<Sum>a\<leftarrow>v. exp (a::real))"
  using sum_list_exp_pos[of v] by (simp add: sum_list_exp_shift ln_mult)

lemma log_sum_exp_eq: "v \<noteq> [] \<Longrightarrow> log_sum_exp v = Inr (ln (\<Sum>a\<leftarrow>v. exp a))"
  by (cases v) (simp_all add: log_sum_exp_def np_max_def lse_shifted del: sum_list.Cons list.map)

text \<open>
  C9. For a non-empty array \<open>v\<close> of reals, \<open>log_sum_exp v\<close>, computed as
  \<open>max v + log (sum (exp (v - max v)))\<close>, is \<open>log (sum (exp v))\<close>, and adding a constant
  \<open>c\<close> to every entry adds \<open>c\<close> to the result.
\<close>

theorem log_sum_exp_correct_and_shift:
  "v \<noteq> [] \<Longrightarrow>
     log_sum_exp v = Inr (ln (\<Sum>a\<leftarrow>v. exp a)) \<and>
     log_sum_exp (map (\<lambda>a. a + c) v) = rbind (log_sum_exp v) (\<lambda>r. Inr (r + c))"
proof -
  assume v: "v \<noteq> []"
  have "(\<Sum>a\<leftarrow>map (\<lambda>a. a + c) v. exp a) = exp c * (\<Sum>a\<leftarrow>v. exp a)"
    by (induction v) (auto simp: exp_add field_simps)
  then show ?thesis
    using v sum_list_exp_pos[OF v] by (simp add: log_sum_exp_eq ln_mult)
qed

theorem log_sum_exp_correct_and_shift_witness:
  "[1, 2] \<noteq> ([] :: real list) \<and>
     log_sum_exp [1, 2] = Inr (ln (exp 1 + exp 2)) \<and>
     log_sum_exp (map (\<lambda>a. a + 1000) [1, 2]) = rbind (log_sum_exp [1, 2]) (\<lambda>r. Inr (r + 1000))"
  using log_sum_exp_correct_and_shift [of "[1, 2]" 1000] by simp

section \<open>Density of the feature enumeration\<close>

lemma map_of_zip_upt_Some:
  "distinct fs \<Longrightarrow> map_of (zip fs [0..<length fs]) f = Some k \<longleftrightarrow> k < length fs \<and> fs ! k = f"
proof
  assume d: "distinct fs" and "map_of (zip fs [0..<length fs]) f = Some k"
  then have "(f, k) \<in> set (zip fs [0..<length fs])" by (rule_tac map_of_SomeD)
  then show "k < length fs \<and> fs ! k = f" by (auto simp: in_set_zip)
next
  assume d: "distinct fs" and "k < length fs \<and> fs ! k = f"
  then show "map_of (zip fs [0..<length fs]) f = Some k"
    using map_of_zip_nth[of fs "[0..<length fs]" k] by auto
qed

lemma map_of_upt_zip_Some:
  "map_of (zip [0..<length fs] fs) k = Some f \<longleftrightarrow> k < length fs \<and> fs ! k = f"
proof
  assume "map_of (zip [0..<length fs] fs) k = Some f"
  then have "(k, f) \<in> set (zip [0..<length fs] fs)" by (rule map_of_SomeD)
  then show "k < length fs \<and> fs ! k = f" by (auto simp: in_set_zip)
next
  assume "k < length fs \<and> fs ! k = f"
  then show "map_of (zip [0..<length fs] fs) k = Some f"
    using map_of_zip_nth[of "[0..<length fs]" fs k] by auto
qed

lemma enumerate_features_fresh:
  assumes "feature_index m = Map.empty" "index_feature m = Map.empty"
  shows "feature_index (enumerate_features m) =
           map_of (zip (all_features (nwords m)) [0..<length (all_features (nwords m))])"
    and "index_feature (enumerate_features m) =
           map_of (zip [0..<length (all_features (nwords m))] (all_features (nwords m)))"
    and "nfeatures (enumerate_features m) = length (all_features (nwords m))"
    and "weights (enumerate_features m) =
           replicate (length (all_features (nwords m))) (1 / real (length (all_features (nwords m))))"
    and "prior_feature_count (enumerate_features m) = replicate (length (all_features (nwords m))) 0"
  using assms fold_add_feature[OF distinct_all_features, of "nwords m" 0 Map.empty Map.empty]
  by (simp_all add: enumerate_features_def all_features_def)

lemma enumerate_features_keeps [simp]:
  "nwords (enumerate_features m) = nwords m"
  "word_index (enumerate_features m) = word_index m"
  "index_word (enumerate_features m) = index_word m"
  "train_data (enumerate_features m) = train_data m"
  "theta (enumerate_features m) = theta m"
  by (simp_all add: enumerate_features_def split: prod.splits)

text \<open>
  C8. On an instance whose feature maps are still empty (as \<open>__init__\<close> leaves them), the
  enumeration of \<open>train\<close> builds two maps that are inverse to each other, the ids assigned
  are exactly \<open>0, ..., nfeatures - 1\<close> with no id given twice, every unigram feature has a
  lower id than every bigram feature, and
  \<open>nfeatures = 5 * nwords * ntags + nwords * ntags\<^sup>2\<close>.
\<close>

theorem feature_enumeration_dense:
  assumes "feature_index m = Map.empty" and "index_feature m = Map.empty"
  shows "(\<forall>f k. feature_index (enumerate_features m) f = Some k
            \<longleftrightarrow> index_feature (enumerate_features m) k = Some f) \<and>
         ran (feature_index (enumerate_features m)) = {0..<nfeatures (enumerate_features m)} \<and>
         dom (index_feature (enumerate_features m)) = {0..<nfeatures (enumerate_features m)} \<and>
         inj_on (feature_index (enumerate_features m)) (dom (feature_index (enumerate_features m))) \<and>
         (\<forall>pos w t pos' w' s' t' k k'.
            feature_index (enumerate_features m) (U pos w t) = Some k \<and>
            feature_index (enumerate_features m) (B pos' w' s' t') = Some k' \<longrightarrow> k < k') \<and>
         nfeatures (enumerate_features m) = 5 * nwords m * ntags + nwords m * ntags ^ 2"
proof -
  let ?fs = "all_features (nwords m)"
  let ?m = "enumerate_features m"
  note e = enumerate_features_fresh[OF assms]
  have d: "distinct ?fs" by (rule distinct_all_features)
  have fi: "\<And>f k. feature_index ?m f = Some k \<longleftrightarrow> k < length ?fs \<and> ?fs ! k = f"
    unfolding e using map_of_zip_upt_Some[OF d] by simp
  have ife: "\<And>f k. index_feature ?m k = Some f \<longleftrightarrow> k < length ?fs \<and> ?fs ! k = f"
    unfolding e using map_of_upt_zip_Some by simp
  have 1: "\<forall>f k. feature_index ?m f = Some k \<longleftrightarrow> index_feature ?m k = Some f"
    by (simp add: fi ife)
  have 2: "ran (feature_index ?m) = {0..<nfeatures ?m}"
    by (auto simp: ran_def fi e(3))
  have 3: "dom (index_feature ?m) = {0..<nfeatures ?m}"
    by (auto simp: dom_def ife e(3))
  have 4: "inj_on (feature_index ?m) (dom (feature_index ?m))"
  proof (rule inj_onI)
    fix f g
    assume "f \<in> dom (feature_index ?m)" "g \<in> dom (feature_index ?m)"
      and eq: "feature_index ?m f = feature_index ?m g"
    then obtain k where kf: "feature_index ?m f = Some k" by auto
    with eq have kg: "feature_index ?m g = Some k" by simp
    from kf kg have "?fs ! k = f" "?fs ! k = g" unfolding fi by blast+
    then show "f = g" by simp
  qed
  have 5: "\<forall>pos w t pos' w' s' t' k k'.
            feature_index ?m (U pos w t) = Some k \<and>
            feature_index ?m (B pos' w' s' t') = Some k' \<longrightarrow> k < k'"
  proof (intro allI impI, elim conjE)
    fix pos w t pos' w' s' t' k k'
    assume "feature_index ?m (U pos w t) = Some k" "feature_index ?m (B pos' w' s' t') = Some k'"
    then have k: "k < length ?fs" "?fs ! k = U pos w t" and k': "k' < length ?fs" "?fs ! k' = B pos' w' s' t'"
      by (simp_all add: fi)
    have "k < length (U_features (nwords m))"
    proof (rule ccontr)
      assume "\<not> k < length (U_features (nwords m))"
      then have "?fs ! k = B_features (nwords m) ! (k - length (U_features (nwords m)))"
        and "k - length (U_features (nwords m)) < length (B_features (nwords m))"
        using k(1) by (auto simp: all_features_def nth_append)
      then have "?fs ! k \<in> set (B_features (nwords m))" by (metis nth_mem)
      with k(2) show False by (auto simp: set_B_features)
    qed
    moreover have "\<not> k' < length (U_features (nwords m))"
    proof
      assume "k' < length (U_features (nwords m))"
      then have "?fs ! k' \<in> set (U_features (nwords m))"
        by (auto simp: all_features_def nth_append)
      with k'(2) show False by (auto simp: set_U_features)
    qed
    ultimately show "k < k'" by simp
  qed
  have 6: "nfeatures ?m = 5 * nwords m * ntags + nwords m * ntags ^ 2"
    by (simp add: e(3) length_all_features)
  from 1 2 3 4 5 6 show ?thesis by blast
qed

theorem feature_enumeration_dense_witness:
  "feature_index init_crf = Map.empty \<and> index_feature init_crf = Map.empty \<and>
   ran (feature_index (enumerate_features init_crf)) = {0..<40 + 32} \<and>
   nfeatures (enumerate_features init_crf) = 72"
  using feature_enumeration_dense [of init_crf]
  by (simp add: init_crf_def ntags_def)

section \<open>Well-formed models and sentences\<close>

text \<open>
  \<open>feature_space_built m\<close>: the feature maps of \<open>m\<close> are the ones \<open>train\<close> enumerates for
  a vocabulary of \<open>nwords m\<close> words on a fresh instance, and there is one weight per
  feature. \<open>in_vocabulary m x\<close>: every word id of \<open>x\<close> is an id of the vocabulary.
\<close>

definition feature_space_built :: "crf \<Rightarrow> bool" where
  "feature_space_built m =
     (feature_index m = feature_index (enumerate_features (init_crf\<lparr>nwords := nwords m\<rparr>)) \<and>
      index_feature m = index_feature (enumerate_features (init_crf\<lparr>nwords := nwords m\<rparr>)) \<and>
      nfeatures m = nfeatures (enumerate_features (init_crf\<lparr>nwords := nwords m\<rparr>)) \<and>
      length (weights m) = nfeatures m)"

definition in_vocabulary :: "crf \<Rightarrow> nat list \<Rightarrow> bool" where
  "in_vocabulary m x = list_all (\<lambda>w. w < nwords m) x"

text \<open>The value of \<open>log_potential_at\<close> when every lookup succeeds.\<close>

definition pot :: "crf \<Rightarrow> nat list \<Rightarrow> nat \<Rightarrow> nat \<Rightarrow> nat \<Rightarrow> real" where
  "pot m x yi_1 yi i =
     sum_list (map (\<lambda>f. weights m ! the (feature_index m f)) (active_keys x yi_1 yi i))"

lemma built_feature_index:
  "feature_space_built m \<Longrightarrow>
     feature_index m f = Some k \<longleftrightarrow> k < nfeatures m \<and> all_features (nwords m) ! k = f"
  using map_of_zip_upt_Some[OF distinct_all_features, of "nwords m" f k]
    enumerate_features_fresh(1,3)[of "init_crf\<lparr>nwords := nwords m\<rparr>"]
  by (simp add: feature_space_built_def init_crf_def)

lemma built_index_feature:
  "feature_space_built m \<Longrightarrow>
     index_feature m k = Some f \<longleftrightarrow> k < nfeatures m \<and> all_features (nwords m) ! k = f"
  using map_of_upt_zip_Some[of "all_features (nwords m)" k f]
    enumerate_features_fresh(2,3)[of "init_crf\<lparr>nwords := nwords m\<rparr>"]
  by (simp add: feature_space_built_def init_crf_def)

lemma built_nfeatures:
  "feature_space_built m \<Longrightarrow> nfeatures m = length (all_features (nwords m))"
  "feature_space_built m \<Longrightarrow> length (weights m) = length (all_features (nwords m))"
  using enumerate_features_fresh(3)[of "init_crf\<lparr>nwords := nwords m\<rparr>"]
  by (simp_all add: feature_space_built_def init_crf_def)

lemma built_known:
  assumes "feature_space_built m" "f \<in> set (all_features (nwords m))"
  shows "\<exists>k. feature_index m f = Some k \<and> k < length (weights m)"
proof -
  from assms(2) obtain k where "k < length (all_features (nwords m))" "all_features (nwords m) ! k = f"
    by (auto simp: in_set_conv_nth)
  then show ?thesis using assms(1) by (auto simp: built_feature_index built_nfeatures)
qed

lemma built_unknown:
  assumes "feature_space_built m" "f \<notin> set (all_features (nwords m))"
  shows "feature_index m f = None"
proof (rule ccontr)
  assume "feature_index m f \<noteq> None"
  then obtain k where "feature_index m f = Some k" by auto
  with assms(1) have "k < length (all_features (nwords m))" "all_features (nwords m) ! k = f"
    by (simp_all add: built_feature_index built_nfeatures)
  with assms(2) show False by (metis nth_mem)
qed

lemma set_all_features:
  "set (all_features n) =
     {U pos word tag | pos word tag. pos \<in> set U_feature_pos \<and> word < n \<and> tag < ntags} \<union>
     {B pos word s t | pos word s t. pos \<in> set B_feature_pos \<and> word < n \<and> s < ntags \<and> t < ntags}"
  by (simp add: all_features_def set_U_features set_B_features)

lemma active_keys_known:
  assumes "in_vocabulary m x" "yi_1 < ntags" "yi < ntags" "f \<in> set (active_keys x yi_1 yi i)"
  shows "f \<in> set (all_features (nwords m))"
proof -
  have x: "\<And>j. j < length x \<Longrightarrow> x ! j < nwords m"
    using assms(1) by (simp add: in_vocabulary_def list_all_length)
  from assms(4) show ?thesis
    unfolding active_keys_def set_all_features using assms(2,3)
    by (auto intro!: x)
qed

lemma active_ids_ok:
  assumes "feature_space_built m" "in_vocabulary m x" "yi_1 < ntags" "yi < ntags"
  shows "active_ids m x yi_1 yi i = Inr (map (\<lambda>f. the (feature_index m f)) (active_keys x yi_1 yi i))"
  unfolding active_ids_def
proof (rule mapM_Inr)
  fix f assume "f \<in> set (active_keys x yi_1 yi i)"
  from built_known[OF assms(1) active_keys_known[OF assms(2-4) this]]
  show "dict_get (feature_index m) f = Inr (the (feature_index m f))"
    by (auto simp: dict_get_def)
qed

lemma log_potential_at_ok:
  assumes "feature_space_built m" "in_vocabulary m x" "yi_1 < ntags" "yi < ntags"
  shows "log_potential_at m x yi_1 yi i = Inr (pot m x yi_1 yi i)"
proof -
  have "mapM (\<lambda>k. np_get (weights m) (int k))
          (map (\<lambda>f. the (feature_index m f)) (active_keys x yi_1 yi i)) =
        Inr (map (\<lambda>k. weights m ! k) (map (\<lambda>f. the (feature_index m f)) (active_keys x yi_1 yi i)))"
  proof (rule mapM_Inr)
    fix k assume "k \<in> set (map (\<lambda>f. the (feature_index m f)) (active_keys x yi_1 yi i))"
    then obtain f where f: "f \<in> set (active_keys x yi_1 yi i)" "k = the (feature_index m f)" by auto
    from built_known[OF assms(1) active_keys_known[OF assms(2-4) f(1)]] f(2)
    show "np_get (weights m) (int k) = Inr (weights m ! k)" by auto
  qed
  then show ?thesis
    by (simp add: log_potential_at_def active_ids_ok[OF assms] pot_def comp_def)
qed


lemma py_index_nonneg [simp]:
  "0 \<le> i \<Longrightarrow> py_index len i = (if nat i < len then Inr (nat i) else Inl IndexError)"
  by (auto simp: py_index_def)

lemma np_get_nonneg [simp]:
  "0 \<le> i \<Longrightarrow> np_get xs i = (if nat i < length xs then Inr (xs ! nat i) else Inl IndexError)"
  by (simp add: np_get_def)

lemma np_set_nonneg [simp]:
  "0 \<le> i \<Longrightarrow> np_set xs i v = (if nat i < length xs then Inr (xs[nat i := v]) else Inl IndexError)"
  by (simp add: np_set_def)

lemma built_after_enumerate:
  assumes "feature_index m = Map.empty" "index_feature m = Map.empty"
  shows "feature_space_built (enumerate_features m)"
  using enumerate_features_fresh[OF assms]
    enumerate_features_fresh[of "init_crf\<lparr>nwords := nwords m\<rparr>"]
  by (simp add: feature_space_built_def init_crf_def)

lemma built_update [simp]:
  "feature_space_built (m\<lparr>train_data := d\<rparr>) = feature_space_built m"
  "feature_space_built (m\<lparr>prior_feature_count := p\<rparr>) = feature_space_built m"
  by (simp_all add: feature_space_built_def)


lemma in_vocabulary_update [simp]:
  "in_vocabulary (m\<lparr>train_data := d\<rparr>) x = in_vocabulary m x"
  "in_vocabulary (m\<lparr>prior_feature_count := p\<rparr>) x = in_vocabulary m x"
  "in_vocabulary (m\<lparr>weights := w\<rparr>) x = in_vocabulary m x"
  by (simp_all add: in_vocabulary_def)

lemma active_ids_bound:
  assumes "feature_space_built m" "in_vocabulary m x" "yi_1 < ntags" "yi < ntags"
    and "active_ids m x yi_1 yi i = Inr ids"
  shows "list_all (\<lambda>k. k < nfeatures m) ids"
proof -
  from assms(5) have ids: "ids = map (\<lambda>f. the (feature_index m f)) (active_keys x yi_1 yi i)"
    by (simp add: active_ids_ok[OF assms(1-4)])
  show ?thesis unfolding ids list_all_iff
  proof
    fix k assume "k \<in> set (map (\<lambda>f. the (feature_index m f)) (active_keys x yi_1 yi i))"
    then obtain f where f: "f \<in> set (active_keys x yi_1 yi i)" "k = the (feature_index m f)" by auto
    from built_known[OF assms(1) active_keys_known[OF assms(2-4) f(1)]] f(2) assms(1)
    show "k < nfeatures m" by (auto simp: feature_space_built_def)
  qed
qed

section \<open>A smallest training run\<close>

text \<open>
  The corpus file of one sentence of one character, \<open>a S\<close> followed by a blank line, and
  the model \<open>train\<close> holds when it starts the optimizer on it.
\<close>

definition example_corpus :: "line list" where
  "example_corpus = [Fields [''a'', ''S''], Blank]"

definition example_model :: crf where
  "example_model = (case train_setup init_crf example_corpus of Inr m \<Rightarrow> m | Inl e \<Rightarrow> init_crf)"

lemma example_read:
  "foldM read_line example_corpus (init_crf, [start_char], [start_tag], [], []) =
     Inr (init_crf\<lparr> word_index := (word_index init_crf)(''a'' \<mapsto> 2),
                     index_word := (index_word init_crf)(2 \<mapsto> ''a''), nwords := 3 \<rparr>,
          [start_char], [start_tag], [[start_char, ''a'', end_char]], [[start_tag, ''S'', end_tag]])"
  by (simp add: example_corpus_def read_line_def init_crf_def start_char_def end_char_def)

lemma example_setup:
  "\<exists>prior. length prior = 108 \<and> train_setup init_crf example_corpus =
     Inr ((enumerate_features (init_crf\<lparr> word_index := (word_index init_crf)(''a'' \<mapsto> 2),
                     index_word := (index_word init_crf)(2 \<mapsto> ''a''), nwords := 3 \<rparr>))
          \<lparr>train_data := [([0, 2, 1], [3, 3, 3])], prior_feature_count := prior\<rparr>)"
proof -
  let ?m1 = "init_crf\<lparr> word_index := (word_index init_crf)(''a'' \<mapsto> 2),
                     index_word := (index_word init_crf)(2 \<mapsto> ''a''), nwords := 3 \<rparr>"
  let ?m3 = "(enumerate_features ?m1)\<lparr>train_data := [([0, 2, 1], [3, 3, 3])]\<rparr>"
  have b: "feature_space_built ?m3"
    by (simp add: built_after_enumerate init_crf_def)
  have v: "in_vocabulary ?m3 [0, 2, 1]"
    by (simp add: in_vocabulary_def)
  obtain ids where ids: "active_ids ?m3 [0, 2, 1] 3 3 1 = Inr ids"
    using active_ids_ok[OF b v, of 3 3 1] by (simp add: ntags_def)
  from active_ids_bound[OF b v _ _ ids] have "list_all (\<lambda>k. k < nfeatures ?m3) ids"
    by (simp add: ntags_def)
  moreover have "length (prior_feature_count ?m3) = nfeatures ?m3"
    by (simp add: enumerate_features_fresh init_crf_def)
  ultimately obtain prior where
    pr: "np_iadd_at (prior_feature_count ?m3) ids 1 = Inr prior"
    by (simp add: np_iadd_at_def)
  have lp: "length prior = 108"
    using pr
    by (auto simp: np_iadd_at_def enumerate_features_fresh init_crf_def length_all_features
        ntags_def split: if_splits)
  from pr ids have c: "foldM (count_features ?m3) (train_data ?m3) (prior_feature_count ?m3) = Inr prior"
    by (simp add: count_features_def upt_conv_Cons)
  have w: "mapM (mapM (dict_get ((word_index init_crf)(''a'' \<mapsto> 2))))
             [[start_char, ''a'', end_char]] = Inr [[0, 2, 1]]"
    by (simp add: dict_get_def init_crf_def start_char_def end_char_def)
  have l: "mapM (mapM (dict_get tag_index)) [[start_tag, ''S'', end_tag]] = Inr [[3, 3, 3]]"
    by (simp add: dict_get_def tag_index_def start_tag_def end_tag_def)
  have "train_setup init_crf example_corpus = Inr (?m3\<lparr>prior_feature_count := prior\<rparr>)"
    unfolding train_setup_def example_read
    using c by (simp add: w l Let_def del: mapM.simps foldM.simps)
  with lp show ?thesis by blast
qed

lemma example_model_facts:
  "train_setup init_crf example_corpus = Inr example_model"
  "feature_space_built example_model"
  "nwords example_model = 3"
  "nfeatures example_model = 108"
  "weights example_model = replicate 108 (1 / 108)"
  "train_data example_model = [([0, 2, 1], [3, 3, 3])]"
  "theta example_model = 1 / 10000"
  "length (prior_feature_count example_model) = 108"
proof -
  let ?m1 = "init_crf\<lparr> word_index := (word_index init_crf)(''a'' \<mapsto> 2),
                     index_word := (index_word init_crf)(2 \<mapsto> ''a''), nwords := 3 \<rparr>"
  from example_setup obtain prior where lp: "length prior = 108" and
    s: "train_setup init_crf example_corpus =
          Inr ((enumerate_features ?m1)\<lparr>train_data := [([0, 2, 1], [3, 3, 3])],
                 prior_feature_count := prior\<rparr>)" by blast
  then have e: "example_model = (enumerate_features ?m1)\<lparr>train_data := [([0, 2, 1], [3, 3, 3])],
                 prior_feature_count := prior\<rparr>"
    by (simp add: example_model_def)
  have fresh: "feature_index ?m1 = Map.empty" "index_feature ?m1 = Map.empty"
    by (simp_all add: init_crf_def)
  have n: "length (all_features 3) = 108"
    by (simp add: length_all_features ntags_def)
  show "train_setup init_crf example_corpus = Inr example_model" using s e by simp
  show "feature_space_built example_model"
    unfolding e using built_after_enumerate[OF fresh] by simp
  show "nwords example_model = 3" unfolding e by simp
  show "nfeatures example_model = 108"
    unfolding e using enumerate_features_fresh(3)[OF fresh] n by simp
  show "weights example_model = replicate 108 (1 / 108)"
    unfolding e using enumerate_features_fresh(4)[OF fresh] n by simp
  show "train_data example_model = [([0, 2, 1], [3, 3, 3])]" unfolding e by simp
  show "theta example_model = 1 / 10000" unfolding e by (simp add: init_crf_def)
  show "length (prior_feature_count example_model) = 108" unfolding e using lp by simp
qed

section \<open>The indicator sum\<close>

text \<open>
  The reference of C10, in the claim's words: the sum over all feature ids \<open>k\<close> below
  \<open>nfeatures\<close> of \<open>weights[k] * feature_at(k, x, yi_1, yi, i)\<close>.
\<close>

definition reference_potential :: "crf \<Rightarrow> nat list \<Rightarrow> nat \<Rightarrow> nat \<Rightarrow> nat \<Rightarrow> error + real" where
  "reference_potential m x yi_1 yi i =
     rbind (mapM (\<lambda>k.
              rbind (np_get (weights m) (int k)) (\<lambda>w.
              rbind (feature_at m k x yi_1 yi i) (\<lambda>f. Inr (w * real f))))
            [0..<nfeatures m]) (\<lambda>terms. Inr (sum_list terms))"

lemma distinct_active_keys: "distinct (active_keys x yi_1 yi i)"
proof -
  have "distinct U_feature_pos" "distinct B_feature_pos"
    by (simp_all add: U_feature_pos_def B_feature_pos_def)
  then show ?thesis
    by (auto simp: active_keys_def distinct_map inj_on_def)
qed

lemma feature_at_indicator:
  assumes b: "feature_space_built m" and k: "k < nfeatures m" and i: "1 \<le> i" "i < length x"
  shows "feature_at m k x yi_1 yi i =
           Inr (if all_features (nwords m) ! k \<in> set (active_keys x yi_1 yi i) then 1 else 0)"
proof -
  let ?f = "all_features (nwords m) ! k"
  have ix: "index_feature m k = Some ?f" using b k by (simp add: built_index_feature)
  have mem: "?f \<in> set (all_features (nwords m))"
    using b k by (simp add: built_nfeatures)
  show ?thesis
  proof (cases ?f)
    case (U pos w t)
    with mem have "pos \<in> set U_feature_pos" by (auto simp: set_all_features)
    with U show ?thesis using ix
      by (auto simp: feature_at_def dict_get_def active_keys_def add.commute)
  next
    case (B pos w s t)
    with mem have "pos = 0" by (auto simp: set_all_features B_feature_pos_def)
    with B show ?thesis using ix i
      by (auto simp: feature_at_def dict_get_def active_keys_def B_feature_pos_def)
  qed
qed

lemma indicator_sum:
  assumes b: "feature_space_built m" and A: "set keys \<subseteq> set (all_features (nwords m))"
    and d: "distinct keys"
  shows "(\<Sum>k\<leftarrow>[0..<nfeatures m].
            weights m ! k * real (if all_features (nwords m) ! k \<in> set keys then 1 else 0 :: nat)) =
         (\<Sum>f\<leftarrow>keys. weights m ! the (feature_index m f))"
proof -
  let ?fs = "all_features (nwords m)"
  let ?g = "\<lambda>f. the (feature_index m f)"
  have g: "\<And>f. f \<in> set keys \<Longrightarrow> ?g f < nfeatures m \<and> ?fs ! ?g f = f"
  proof -
    fix f assume "f \<in> set keys"
    with A built_known[OF b, of f] obtain k where k: "feature_index m f = Some k" by auto
    with b have "k < nfeatures m \<and> ?fs ! k = f" by (simp add: built_feature_index)
    with k show "?g f < nfeatures m \<and> ?fs ! ?g f = f" by simp
  qed
  have inj: "inj_on ?g (set keys)"
    by (rule inj_onI) (metis g)
  have img: "?g ` set keys = {k \<in> {0..<nfeatures m}. ?fs ! k \<in> set keys}"
  proof (intro set_eqI iffI)
    fix k assume "k \<in> ?g ` set keys"
    then show "k \<in> {k \<in> {0..<nfeatures m}. ?fs ! k \<in> set keys}" using g by auto
  next
    fix k assume "k \<in> {k \<in> {0..<nfeatures m}. ?fs ! k \<in> set keys}"
    then have k: "k < nfeatures m" "?fs ! k \<in> set keys" by auto
    with b have "feature_index m (?fs ! k) = Some k" by (simp add: built_feature_index)
    then have "?g (?fs ! k) = k" by simp
    with k(2) show "k \<in> ?g ` set keys" by (metis imageI)
  qed
  have "(\<Sum>k\<leftarrow>[0..<nfeatures m].
            weights m ! k * real (if ?fs ! k \<in> set keys then 1 else 0 :: nat)) =
        (\<Sum>k\<in>{0..<nfeatures m}. if ?fs ! k \<in> set keys then weights m ! k else 0)"
    by (simp add: interv_sum_list_conv_sum_set_nat if_distrib cong: if_cong)
  also have "\<dots> = (\<Sum>k\<in>{k \<in> {0..<nfeatures m}. ?fs ! k \<in> set keys}. weights m ! k)"
    by (rule sum.inter_filter[symmetric]) simp
  also have "\<dots> = (\<Sum>f\<in>set keys. weights m ! ?g f)"
    unfolding img[symmetric] by (simp add: sum.reindex[OF inj])
  also have "\<dots> = (\<Sum>f\<leftarrow>keys. weights m ! ?g f)"
    using d by (simp add: sum_list_distinct_conv_sum_set)
  finally show ?thesis .
qed

lemma reference_potential_ok:
  assumes b: "feature_space_built m" and v: "in_vocabulary m x"
    and t: "yi_1 < ntags" "yi < ntags" and i: "1 \<le> i" "i < length x"
  shows "reference_potential m x yi_1 yi i = Inr (pot m x yi_1 yi i)"
proof -
  let ?ind = "\<lambda>k. (if all_features (nwords m) ! k \<in> set (active_keys x yi_1 yi i) then 1 else 0 :: nat)"
  have "mapM (\<lambda>k. rbind (np_get (weights m) (int k)) (\<lambda>w.
                   rbind (feature_at m k x yi_1 yi i) (\<lambda>f. Inr (w * real f))))
          [0..<nfeatures m] =
        Inr (map (\<lambda>k. weights m ! k * real (?ind k)) [0..<nfeatures m])"
  proof (rule mapM_Inr)
    fix k assume "k \<in> set [0..<nfeatures m]"
    then have k: "k < nfeatures m" by simp
    with b have "k < length (weights m)" by (simp add: built_nfeatures)
    then show "rbind (np_get (weights m) (int k)) (\<lambda>w.
                 rbind (feature_at m k x yi_1 yi i) (\<lambda>f. Inr (w * real f))) =
               Inr (weights m ! k * real (?ind k))"
      by (simp add: feature_at_indicator[OF b k i])
  qed
  moreover have "set (active_keys x yi_1 yi i) \<subseteq> set (all_features (nwords m))"
    using active_keys_known[OF v t] by blast
  ultimately show ?thesis
    using indicator_sum[OF b _ distinct_active_keys, of x yi_1 yi i]
    by (simp add: reference_potential_def pot_def)
qed

text \<open>
  C10. On a model whose feature space has been enumerated, for a sentence \<open>x\<close> of
  in-vocabulary word ids, tags \<open>yi_1\<close> and \<open>yi\<close> of the tag set and a position \<open>i\<close> with
  \<open>1 \<le> i \<le> len(x) - 1\<close>, \<open>log_potential_at\<close> returns a value, and it is the value of the
  indicator sum over all feature ids.
\<close>

theorem log_potential_at_refines_reference:
  assumes "feature_space_built m" and "in_vocabulary m x"
    and "yi_1 < ntags" and "yi < ntags" and "1 \<le> i" and "i + 1 \<le> length x"
  shows "log_potential_at m x yi_1 yi i = reference_potential m x yi_1 yi i \<and>
         (\<exists>v. log_potential_at m x yi_1 yi i = Inr v)"
  using assms log_potential_at_ok[of m x yi_1 yi i] reference_potential_ok[of m x yi_1 yi i]
  by simp

theorem log_potential_at_refines_reference_witness:
  "feature_space_built example_model \<and> in_vocabulary example_model [0, 2, 1] \<and>
   3 < ntags \<and> 0 < ntags \<and> (1::nat) \<le> 1 \<and> (1::nat) + 1 \<le> length [0::nat, 2, 1] \<and>
   log_potential_at example_model [0, 2, 1] 3 0 1 = reference_potential example_model [0, 2, 1] 3 0 1 \<and>
   (\<exists>v. log_potential_at example_model [0, 2, 1] 3 0 1 = Inr v)"
proof -
  have v: "in_vocabulary example_model [0, 2, 1]"
    by (simp add: in_vocabulary_def example_model_facts(3))
  have t: "3 < ntags" "0 < ntags" by (simp_all add: ntags_def)
  have h: "(1::nat) \<le> 1" "(1::nat) + 1 \<le> length [0::nat, 2, 1]" by simp_all
  from log_potential_at_refines_reference [OF example_model_facts(2) v t h]
  have r: "log_potential_at example_model [0, 2, 1] 3 0 1 = reference_potential example_model [0, 2, 1] 3 0 1"
    and e: "\<exists>v. log_potential_at example_model [0, 2, 1] 3 0 1 = Inr v"
    by blast+
  show ?thesis
    by (intro conjI r e example_model_facts(2) v t) simp_all
qed

section \<open>The potential tensor\<close>

text \<open>
  \<open>shaped M L\<close>: \<open>M\<close> has \<open>L\<close> slices of \<open>ntags\<close> rows of \<open>ntags\<close> entries.
  \<open>potentials m x\<close> is the tensor \<open>log_potential_matrix\<close> returns when no lookup fails.
\<close>

definition shaped :: "real list list list \<Rightarrow> nat \<Rightarrow> bool" where
  "shaped M L =
     (length M = L \<and> list_all (\<lambda>Mi. length Mi = ntags \<and> list_all (\<lambda>r. length r = ntags) Mi) M)"

definition potentials :: "crf \<Rightarrow> nat list \<Rightarrow> real list list list" where
  "potentials m x =
     take 1 (replicate (length x) (replicate ntags (replicate ntags 0))) @
     map (\<lambda>i. map (\<lambda>s. map (\<lambda>t. pot m x s t i) [0..<ntags]) [0..<ntags]) [1..<length x]"

lemma shaped_nth:
  assumes "shaped M L" "i < L"
  shows "length (M ! i) = ntags" and "s < ntags \<Longrightarrow> length (M ! i ! s) = ntags"
  using assms by (auto simp: shaped_def list_all_length)

lemma get_row_shaped:
  "shaped M L \<Longrightarrow> i < L \<Longrightarrow> s < ntags \<Longrightarrow> get_row M (int i) s = Inr (M ! i ! s)"
  by (simp add: get_row_def shaped_nth(1)) (simp add: shaped_def)

lemma get_col_shaped:
  assumes "shaped M L" "i < L" "t < ntags"
  shows "get_col M (int i) t = Inr (map (\<lambda>r. r ! t) (M ! i))"
proof -
  have "mapM (\<lambda>r. np_get r (int t)) (M ! i) = Inr (map (\<lambda>r. r ! t) (M ! i))"
  proof (rule mapM_Inr)
    fix r assume "r \<in> set (M ! i)"
    then obtain s where "s < length (M ! i)" "r = M ! i ! s" by (auto simp: in_set_conv_nth)
    with assms shaped_nth[OF assms(1,2)] show "np_get r (int t) = Inr (r ! t)" by simp
  qed
  with assms show ?thesis by (simp add: get_col_def shaped_def)
qed

lemma get_cell_shaped:
  "shaped M L \<Longrightarrow> i < L \<Longrightarrow> s < ntags \<Longrightarrow> t < ntags \<Longrightarrow> get_cell M (int i) s t = Inr (M ! i ! s ! t)"
  by (simp add: get_cell_def get_row_shaped shaped_nth)

lemma shaped_potentials: "shaped (potentials m x) (length x)"
  by (cases "length x") (auto simp: shaped_def potentials_def list_all_iff)


lemma log_potential_matrix_ok:
  assumes "feature_space_built m" "in_vocabulary m x"
  shows "log_potential_matrix m x = Inr (potentials m x)"
proof -
  have "mapM (\<lambda>i. mapM (\<lambda>tag1. mapM (\<lambda>tag2. log_potential_at m x tag1 tag2 i)
                [0..<ntags]) [0..<ntags]) [1..<length x] =
        Inr (map (\<lambda>i. map (\<lambda>s. map (\<lambda>t. pot m x s t i) [0..<ntags]) [0..<ntags]) [1..<length x])"
    by (intro mapM_Inr) (simp add: log_potential_at_ok[OF assms])
  then show ?thesis
    by (simp add: log_potential_matrix_def np_zeros3_def potentials_def)
qed

section \<open>Closed forms of the forward and backward tables\<close>

definition lse :: "real list \<Rightarrow> real" where
  "lse v = ln (\<Sum>a\<leftarrow>v. exp a)"

fun fwd :: "real list list list \<Rightarrow> nat \<Rightarrow> real list" where
  "fwd M 0 = replicate ntags 0"
| "fwd M (Suc i) =
     (if i = 0 then M ! 1 ! start_index
      else map (\<lambda>t. lse (map2 (+) (fwd M i) (map (\<lambda>r. r ! t) (M ! Suc i)))) [0..<ntags])"

fun bwd :: "real list list list \<Rightarrow> nat \<Rightarrow> nat \<Rightarrow> real list" where
  "bwd M n 0 = map (\<lambda>r. r ! end_index) (M ! (n + 1))"
| "bwd M n (Suc k) = map (\<lambda>s. lse (map2 (+) (bwd M n k) (M ! (n - k) ! s))) [0..<ntags]"

lemma start_index_less [simp]: "start_index < ntags" "end_index < ntags"
  by (simp_all add: start_index_def end_index_def ntags_def)

lemma length_fwd: "shaped M L \<Longrightarrow> 1 < L \<Longrightarrow> length (fwd M i) = ntags"
  by (cases i) (auto simp: shaped_nth)

lemma length_bwd: "shaped M L \<Longrightarrow> n + 1 < L \<Longrightarrow> length (bwd M n k) = ntags"
  by (cases k) (auto simp: shaped_nth)

lemma log_sum_exp_lse: "v \<noteq> [] \<Longrightarrow> log_sum_exp v = Inr (lse v)"
  by (simp add: log_sum_exp_eq lse_def)

lemma ntags_pos [simp]: "0 < ntags"
  by (simp add: ntags_def)

lemma forward_row:
  assumes M: "shaped M L" and i: "1 \<le> i" "Suc i < L" and a: "a ! i = fwd M i" "i < length a"
  shows "mapM (\<lambda>tag.
           rbind (np_get a (int (Suc i) - 1)) (\<lambda>prev.
           rbind (get_col M (int (Suc i)) tag) (\<lambda>c.
           rbind (np_add prev c) log_sum_exp))) [0..<ntags] = Inr (fwd M (Suc i))"
proof -
  have L: "1 < L" using i by simp
  have "mapM (\<lambda>tag.
           rbind (np_get a (int (Suc i) - 1)) (\<lambda>prev.
           rbind (get_col M (int (Suc i)) tag) (\<lambda>c.
           rbind (np_add prev c) log_sum_exp))) [0..<ntags] =
        Inr (map (\<lambda>t. lse (map2 (+) (fwd M i) (map (\<lambda>r. r ! t) (M ! Suc i)))) [0..<ntags])"
  proof (rule mapM_Inr)
    fix t assume "t \<in> set [0..<ntags]"
    then have t: "t < ntags" by simp
    have ne: "map2 (+) (fwd M i) (map (\<lambda>r. r ! t) (M ! Suc i)) \<noteq> []"
      using length_fwd[OF M L, of i] shaped_nth(1)[OF M i(2)] by (auto simp: ntags_def)
    show "rbind (np_get a (int (Suc i) - 1)) (\<lambda>prev.
           rbind (get_col M (int (Suc i)) t) (\<lambda>c.
           rbind (np_add prev c) log_sum_exp)) =
          Inr (lse (map2 (+) (fwd M i) (map (\<lambda>r. r ! t) (M ! Suc i))))"
      using a get_col_shaped[OF M i(2) t] length_fwd[OF M L, of i] shaped_nth(1)[OF M i(2)]
      by (simp add: np_add_def log_sum_exp_lse[OF ne])
  qed
  with i show ?thesis by simp
qed

lemma log_alpha_ok:
  assumes M: "shaped M (length x)" and n: "3 \<le> length x"
  shows "log_alpha m x (Some M) = Inr (map (fwd M) [0..<length x - 1])"
proof -
  define n where "n = length x - 2"
  have lx: "length x = n + 2" and n1: "1 \<le> n" using n by (simp_all add: n_def)
  let ?Z = "replicate ntags (0::real)"
  let ?a1 = "(replicate (n + 1) ?Z)[1 := M ! 1 ! start_index]"
  let ?body = "\<lambda>i alpha.
            rbind (mapM (\<lambda>tag.
                rbind (np_get alpha (int i - 1)) (\<lambda>prev.
                rbind (get_col M (int i) tag) (\<lambda>c.
                rbind (np_add prev c) log_sum_exp))) [0..<ntags]) (\<lambda>row.
              np_set alpha (int i) row)"
  let ?I = "\<lambda>k a. a = map (fwd M) [0..<k] @ replicate (n + 1 - k) ?Z"
  have I2: "?I 2 ?a1"
    using n1 by (cases n) (simp_all add: upt_rec numeral_2_eq_2)
  have step: "\<And>i a. 2 \<le> i \<Longrightarrow> i < n + 1 \<Longrightarrow> ?I i a \<Longrightarrow> \<exists>a'. ?body i a = Inr a' \<and> ?I (Suc i) a'"
  proof -
    fix i a assume i: "2 \<le> i" "i < n + 1" and I: "?I i a"
    obtain j where j: "i = Suc j" "1 \<le> j" using i by (cases i) auto
    have aj: "a ! j = fwd M j" "j < length a" "length a = n + 1"
      using I i j by (simp_all add: nth_append)
    have row: "mapM (\<lambda>tag.
                rbind (np_get a (int i - 1)) (\<lambda>prev.
                rbind (get_col M (int i) tag) (\<lambda>c.
                rbind (np_add prev c) log_sum_exp))) [0..<ntags] = Inr (fwd M i)"
      unfolding j(1) using forward_row[OF M j(2) _ aj(1,2)] i lx j by simp
    have "a[i := fwd M i] = map (fwd M) [0..<Suc i] @ replicate (n + 1 - Suc i) ?Z"
      using I i by (simp add: list_update_append replicate_app_Cons_same
          upd_conv_take_nth_drop Suc_diff_Suc flip: replicate_Suc)
    with row aj i show "\<exists>a'. ?body i a = Inr a' \<and> ?I (Suc i) a'" by simp
  qed
  from foldM_upt_rule[of 2 "n + 1" ?I ?a1 ?body, OF _ I2 step] n1
  have "foldM ?body [2..<n + 1] ?a1 = Inr (map (fwd M) [0..<n + 1])" by auto
  moreover have "get_row M 1 start_index = Inr (M ! 1 ! start_index)"
    using get_row_shaped[OF M, of 1 start_index] lx by simp
  ultimately show ?thesis
    using n1 by (simp add: log_alpha_def default_M_def np_zeros2_def lx nat_add_distrib)
qed


lemma backward_row:
  assumes M: "shaped M L" and i: "Suc idx < L" and nk: "n - k = Suc idx" and n: "n + 1 < L"
    and b: "b ! Suc idx = bwd M n k" "Suc idx < length b"
  shows "mapM (\<lambda>tag.
           rbind (np_get b (int idx + 1)) (\<lambda>next.
           rbind (get_row M (int idx + 1) tag) (\<lambda>r.
           rbind (np_add next r) log_sum_exp))) [0..<ntags] = Inr (bwd M n (Suc k))"
proof -
  have e: "int idx + 1 = int (Suc idx)" by simp
  have "mapM (\<lambda>tag.
           rbind (np_get b (int (Suc idx))) (\<lambda>next.
           rbind (get_row M (int (Suc idx)) tag) (\<lambda>r.
           rbind (np_add next r) log_sum_exp))) [0..<ntags] =
        Inr (map (\<lambda>s. lse (map2 (+) (bwd M n k) (M ! Suc idx ! s))) [0..<ntags])"
  proof (rule mapM_Inr)
    fix s assume "s \<in> set [0..<ntags]"
    then have s: "s < ntags" by simp
    have ne: "map2 (+) (bwd M n k) (M ! Suc idx ! s) \<noteq> []"
      using length_bwd[OF M n, of k] shaped_nth(2)[OF M i s] by (auto simp: ntags_def)
    show "rbind (np_get b (int (Suc idx))) (\<lambda>next.
           rbind (get_row M (int (Suc idx)) s) (\<lambda>r.
           rbind (np_add next r) log_sum_exp)) =
          Inr (lse (map2 (+) (bwd M n k) (M ! Suc idx ! s)))"
      using b get_row_shaped[OF M i s] length_bwd[OF M n, of k] shaped_nth(2)[OF M i s]
      by (simp add: np_add_def log_sum_exp_lse[OF ne] del: of_nat_Suc)
  qed
  then show ?thesis unfolding e by (simp add: nk)
qed

definition beta_table :: "real list list list \<Rightarrow> nat \<Rightarrow> real list list" where
  "beta_table M n = map (\<lambda>j. if j = 0 then replicate ntags 0 else bwd M n (n - j)) [0..<n + 1]"

lemma log_beta_ok:
  assumes M: "shaped M (length x)" and n: "3 \<le> length x"
  shows "log_beta m x (Some M) = Inr (beta_table M (length x - 2))"
proof -
  define n where "n = length x - 2"
  have lx: "length x = n + 2" and n1: "1 \<le> n" using n by (simp_all add: n_def)
  have nx: "int (length x) - 2 = int n" using lx by simp
  let ?Z = "replicate ntags (0::real)"
  let ?b1 = "(replicate (n + 1) ?Z)[n := bwd M n 0]"
  let ?body = "\<lambda>i beta.
             rbind (mapM (\<lambda>tag.
                 rbind (np_get beta (int n - int i + 1)) (\<lambda>next.
                 rbind (get_row M (int n - int i + 1) tag) (\<lambda>r.
                 rbind (np_add next r) log_sum_exp))) [0..<ntags]) (\<lambda>row.
               np_set beta (int n - int i) row)"
  let ?I = "\<lambda>k b. length b = n + 1 \<and>
              (\<forall>j\<le>n. b ! j = (if j + k \<le> n then ?Z else bwd M n (n - j)))"
  have I1: "?I 1 ?b1"
    by (auto simp: nth_list_update simp del: replicate.simps)
  have step: "\<And>k b. 1 \<le> k \<Longrightarrow> k < n \<Longrightarrow> ?I k b \<Longrightarrow> \<exists>b'. ?body k b = Inr b' \<and> ?I (Suc k) b'"
  proof -
    fix k b assume k: "1 \<le> k" "k < n" and I: "?I k b"
    obtain k' where k': "k = Suc k'" using k by (cases k) auto
    obtain idx where idx: "n - k = idx" "n - k' = Suc idx" "idx < n" "Suc idx \<le> n"
      using k k' by auto
    have ie: "int n - int k = int idx" using idx k by auto
    have bi: "b ! Suc idx = bwd M n k'" "Suc idx < length b"
      using I idx k k' by auto
    have row: "mapM (\<lambda>tag.
                 rbind (np_get b (int idx + 1)) (\<lambda>next.
                 rbind (get_row M (int idx + 1) tag) (\<lambda>r.
                 rbind (np_add next r) log_sum_exp))) [0..<ntags] = Inr (bwd M n k)"
      unfolding k' using backward_row[OF M _ idx(2) _ bi] idx lx by simp
    have "?I (Suc k) (b[idx := bwd M n k])"
      using I idx k by (auto simp: nth_list_update)
    with row I idx show "\<exists>b'. ?body k b = Inr b' \<and> ?I (Suc k) b'"
      unfolding ie by simp
  qed
  from foldM_upt_rule[of 1 n ?I ?b1 ?body, OF n1 I1 step]
  obtain b where b: "foldM ?body [1..<n] ?b1 = Inr b" "?I n b" by blast
  have "b = beta_table M n"
    using b(2) by (intro nth_equalityI) (auto simp: beta_table_def simp del: upt_Suc)
  moreover have "get_col M (int n + 1) end_index = Inr (bwd M n 0)"
    using get_col_shaped[OF M, of "n + 1" end_index] lx by (simp add: add.commute)
  moreover have "np_zeros2 (int n + 1) ntags = Inr (replicate (n + 1) ?Z)"
    by (simp add: np_zeros2_def nat_add_distrib del: replicate.simps)
  moreover have "np_set (replicate (n + 1) ?Z) (int n) (bwd M n 0) = Inr ?b1"
    by (simp del: replicate.simps)
  ultimately show ?thesis
    unfolding log_beta_def default_M_def Let_def nx n_def[symmetric]
    using b(1) by (simp only: rbind_Inr option.case nat_int)
qed

lemma log_z_ok:
  assumes M: "shaped M (length x)" and n: "3 \<le> length x"
  shows "log_z m x (Some M) (Some (map (fwd M) [0..<length x - 1])) =
           Inr (lse (map2 (+) (fwd M (length x - 2)) (bwd M (length x - 2) 0)))"
proof -
  define n where "n = length x - 2"
  have lx: "length x = n + 2" and n1: "1 \<le> n" using n by (simp_all add: n_def)
  have nx: "int (length x) - 2 = int n" using lx by simp
  have c: "get_col M (int n + 1) end_index = Inr (bwd M n 0)"
    using get_col_shaped[OF M, of "n + 1" end_index] lx by (simp add: add.commute)
  have ne: "map2 (+) (fwd M n) (bwd M n 0) \<noteq> []"
    using length_fwd[OF M, of n] length_bwd[OF M, of n 0] lx by (auto simp: ntags_def)
  have l: "length (fwd M n) = length (bwd M n 0)"
    using length_fwd[OF M, of n] length_bwd[OF M, of n 0] lx by simp
  have g: "np_get (map (fwd M) [0..<length x - 1]) (int n) = Inr (fwd M n)"
    using lx by (simp del: upt_Suc)
  show ?thesis
    unfolding log_z_def default_M_def default_alpha_def Let_def nx n_def[symmetric]
    using c l g by (simp add: np_add_def log_sum_exp_lse[OF ne] n_def[symmetric]
        del: bwd.simps upt_Suc np_get_nat np_get_nonneg)
qed


section \<open>Forward and backward agree on the partition function\<close>

lemma exp_lse_map2:
  assumes "length a = ntags" "length b = ntags"
  shows "exp (lse (map2 (+) a b)) = (\<Sum>t<ntags. exp (a ! t + b ! t))"
proof -
  have ne: "map2 (+) a b \<noteq> []" using assms by (auto simp: ntags_def)
  have "(\<Sum>v\<leftarrow>map2 (+) a b. exp v) = (\<Sum>t<ntags. exp (a ! t + b ! t))"
    using assms by (simp add: sum_list_sum_nth atLeast0LessThan)
  with sum_list_exp_pos[OF ne] show ?thesis by (simp add: lse_def)
qed

lemma exp_fwd_Suc:
  assumes M: "shaped M L" and i: "1 \<le> i" "Suc i < L" and t: "t < ntags"
  shows "exp (fwd M (Suc i) ! t) = (\<Sum>s<ntags. exp (fwd M i ! s + M ! Suc i ! s ! t))"
proof -
  have "exp (fwd M (Suc i) ! t) = exp (lse (map2 (+) (fwd M i) (map (\<lambda>r. r ! t) (M ! Suc i))))"
    using i t by simp
  also have "\<dots> = (\<Sum>s<ntags. exp (fwd M i ! s + map (\<lambda>r. r ! t) (M ! Suc i) ! s))"
    using length_fwd[OF M, of i] shaped_nth(1)[OF M i(2)] i by (intro exp_lse_map2) simp_all
  also have "\<dots> = (\<Sum>s<ntags. exp (fwd M i ! s + M ! Suc i ! s ! t))"
    using shaped_nth(1)[OF M i(2)] by (intro sum.cong) simp_all
  finally show ?thesis .
qed

lemma exp_bwd_Suc:
  assumes M: "shaped M L" and n: "n + 1 < L" and s: "s < ntags"
  shows "exp (bwd M n (Suc k) ! s) = (\<Sum>t<ntags. exp (bwd M n k ! t + M ! (n - k) ! s ! t))"
proof -
  have nk: "n - k < L" using n by simp
  have "exp (bwd M n (Suc k) ! s) = exp (lse (map2 (+) (bwd M n k) (M ! (n - k) ! s)))"
    using s by simp
  also have "\<dots> = (\<Sum>t<ntags. exp (bwd M n k ! t + M ! (n - k) ! s ! t))"
    using length_bwd[OF M n, of k] shaped_nth(2)[OF M nk s] by (intro exp_lse_map2) simp_all
  finally show ?thesis .
qed

lemma partition_constant:
  assumes M: "shaped M L" and n: "n + 1 < L"
  shows "k < n \<Longrightarrow>
     (\<Sum>t<ntags. exp (fwd M (n - k) ! t + bwd M n k ! t)) =
     (\<Sum>t<ntags. exp (fwd M n ! t + bwd M n 0 ! t))"
proof (induction k)
  case 0
  then show ?case by simp
next
  case (Suc k)
  define i where "i = n - Suc k"
  have i: "1 \<le> i" "Suc i < L" "n - k = Suc i" using Suc.prems n by (simp_all add: i_def)
  have "(\<Sum>s<ntags. exp (fwd M i ! s + bwd M n (Suc k) ! s)) =
        (\<Sum>s<ntags. exp (fwd M i ! s) * (\<Sum>t<ntags. exp (bwd M n k ! t + M ! Suc i ! s ! t)))"
    using exp_bwd_Suc[OF M n, of _ k] i(3) by (simp add: exp_add)
  also have "\<dots> = (\<Sum>s<ntags. \<Sum>t<ntags. exp (bwd M n k ! t) * exp (fwd M i ! s + M ! Suc i ! s ! t))"
    by (simp add: sum_distrib_left exp_add mult_ac)
  also have "\<dots> = (\<Sum>t<ntags. \<Sum>s<ntags. exp (bwd M n k ! t) * exp (fwd M i ! s + M ! Suc i ! s ! t))"
    by (rule sum.swap)
  also have "\<dots> = (\<Sum>t<ntags. exp (bwd M n k ! t) * exp (fwd M (Suc i) ! t))"
    using exp_fwd_Suc[OF M i(1,2)] by (simp add: sum_distrib_left)
  also have "\<dots> = (\<Sum>t<ntags. exp (fwd M (n - k) ! t + bwd M n k ! t))"
    by (simp add: i(3) exp_add mult_ac)
  also have "\<dots> = (\<Sum>t<ntags. exp (fwd M n ! t + bwd M n 0 ! t))"
    using Suc by simp
  finally show ?case unfolding i_def .
qed

lemma forward_backward_lse:
  assumes M: "shaped M L" and n: "n + 1 < L" and i: "1 \<le> i" "i \<le> n"
  shows "lse (map2 (+) (fwd M i) (bwd M n (n - i))) = lse (map2 (+) (fwd M n) (bwd M n 0))"
proof -
  have L: "1 < L" using n by simp
  have "exp (lse (map2 (+) (fwd M i) (bwd M n (n - i)))) =
        exp (lse (map2 (+) (fwd M n) (bwd M n 0)))"
    using partition_constant[OF M n, of "n - i"] i
      exp_lse_map2[OF length_fwd[OF M L, of i] length_bwd[OF M n, of "n - i"]]
      exp_lse_map2[OF length_fwd[OF M L, of n] length_bwd[OF M n, of 0]]
    by (simp del: bwd.simps fwd.simps)
  then show ?thesis by simp
qed

text \<open>
  C4. For a sentence \<open>x\<close> of in-vocabulary word ids and every position \<open>i\<close> with
  \<open>1 \<le> i \<le> n\<close>, where \<open>n = len(x) - 2\<close>: the potential matrix, the forward table, the
  backward table and \<open>log_z\<close> are all computed without an error, and
  \<open>log_sum_exp (alpha[i] + beta[i])\<close> is the value \<open>log_z\<close> returns.
\<close>

theorem forward_backward_agreement:
  assumes "feature_space_built m" and "in_vocabulary m x" and "1 \<le> i" and "i + 2 \<le> length x"
  shows "\<exists>alpha beta z.
           log_alpha m x None = Inr alpha \<and> log_beta m x None = Inr beta \<and>
           log_z m x None None = Inr z \<and>
           rbind (np_get alpha (int i)) (\<lambda>a.
           rbind (np_get beta (int i)) (\<lambda>b.
           rbind (np_add a b) log_sum_exp)) = Inr z"
proof -
  let ?M = "potentials m x"
  define n where "n = length x - 2"
  have lx: "length x = n + 2" "3 \<le> length x" and i: "1 \<le> i" "i \<le> n"
    using assms(3,4) by (simp_all add: n_def)
  have M: "shaped ?M (length x)" by (rule shaped_potentials)
  have Mn: "n + 1 < length x" "1 < length x" using lx by simp_all
  have pm: "log_potential_matrix m x = Inr ?M"
    by (rule log_potential_matrix_ok[OF assms(1,2)])
  have a: "log_alpha m x None = Inr (map (fwd ?M) [0..<length x - 1])"
    using log_alpha_ok[OF M lx(2), of m] pm by (simp add: log_alpha_def default_M_def)
  have b: "log_beta m x None = Inr (beta_table ?M n)"
    using log_beta_ok[OF M lx(2), of m] pm by (simp add: log_beta_def default_M_def n_def)
  have z: "log_z m x None None = Inr (lse (map2 (+) (fwd ?M n) (bwd ?M n 0)))"
    using log_z_ok[OF M lx(2), of m] pm log_alpha_ok[OF M lx(2), of m]
    by (simp add: log_z_def default_M_def default_alpha_def n_def)
  have ai: "np_get (map (fwd ?M) [0..<length x - 1]) (int i) = Inr (fwd ?M i)"
    using i lx by (simp del: upt_Suc)
  have bi: "np_get (beta_table ?M n) (int i) = Inr (bwd ?M n (n - i))"
    using i by (simp add: beta_table_def del: upt_Suc)
  have ne: "map2 (+) (fwd ?M i) (bwd ?M n (n - i)) \<noteq> []"
    using length_fwd[OF M Mn(2), of i] length_bwd[OF M Mn(1), of "n - i"] by (auto simp: ntags_def)
  have "rbind (np_get (map (fwd ?M) [0..<length x - 1]) (int i)) (\<lambda>a.
        rbind (np_get (beta_table ?M n) (int i)) (\<lambda>b.
        rbind (np_add a b) log_sum_exp)) = Inr (lse (map2 (+) (fwd ?M n) (bwd ?M n 0)))"
    unfolding ai bi
    using length_fwd[OF M Mn(2), of i] length_bwd[OF M Mn(1), of "n - i"]
      forward_backward_lse[OF M Mn(1) i]
    by (simp add: np_add_def log_sum_exp_lse[OF ne] del: bwd.simps fwd.simps)
  with a b z show ?thesis by blast
qed


theorem forward_backward_agreement_witness:
  "feature_space_built example_model \<and> in_vocabulary example_model [0, 2, 2, 1] \<and>
   (1::nat) \<le> 1 \<and> (1::nat) + 2 \<le> length [0::nat, 2, 2, 1] \<and>
   (\<exists>alpha beta z.
       log_alpha example_model [0, 2, 2, 1] None = Inr alpha \<and>
       log_beta example_model [0, 2, 2, 1] None = Inr beta \<and>
       log_z example_model [0, 2, 2, 1] None None = Inr z \<and>
       rbind (np_get alpha (int 1)) (\<lambda>a.
       rbind (np_get beta (int 1)) (\<lambda>b.
       rbind (np_add a b) log_sum_exp)) = Inr z)"
proof -
  have v: "in_vocabulary example_model [0, 2, 2, 1]"
    by (simp add: in_vocabulary_def example_model_facts(3))
  have h: "(1::nat) \<le> 1" "(1::nat) + 2 \<le> length [0::nat, 2, 2, 1]" by simp_all
  from forward_backward_agreement [OF example_model_facts(2) v h]
  show ?thesis by (intro conjI example_model_facts(2) v h)
qed

section \<open>The log probability of a labelled path\<close>

definition path_sum :: "crf \<Rightarrow> nat list \<Rightarrow> nat list \<Rightarrow> real" where
  "path_sum m x y = (\<Sum>i\<leftarrow>[1..<length y - 1]. pot m x (y ! (i - 1)) (y ! i) i)"

lemma foldM_sum:
  "(\<And>i. i \<in> set is \<Longrightarrow> f i = Inr (g i)) \<Longrightarrow>
     foldM (\<lambda>i acc. rbind (f i) (\<lambda>v. Inr (acc + v))) is (a::real) = Inr (a + sum_list (map g is))"
  by (induction "is" arbitrary: a) (simp_all add: add.assoc)

lemma path_potential_ok:
  assumes b: "feature_space_built m" and v: "in_vocabulary m x" and y: "list_all (\<lambda>t. t < ntags) y"
  shows "path_potential m x y = Inr (path_sum m x y)"
proof -
  have r: "nat (int (length y) - 1) = length y - Suc 0" by arith
  have "foldM (\<lambda>i log_p.
          rbind (rbind (np_get y (int i - 1)) (\<lambda>yi_1.
                 rbind (np_get y (int i)) (\<lambda>yi. log_potential_at m x yi_1 yi i)))
            (\<lambda>v. Inr (log_p + v)))
        [1..<length y - 1] 0 = Inr (0 + sum_list (map (\<lambda>i. pot m x (y ! (i - 1)) (y ! i) i) [1..<length y - 1]))"
  proof (rule foldM_sum)
    fix i assume "i \<in> set [1..<length y - 1]"
    then have i: "1 \<le> i" "i < length y - 1" by simp_all
    then have e: "nat (int i - 1) = i - 1" by simp
    have t: "y ! (i - 1) < ntags" "y ! i < ntags"
      using y i by (simp_all add: list_all_length)
    show "rbind (np_get y (int i - 1)) (\<lambda>yi_1.
                 rbind (np_get y (int i)) (\<lambda>yi. log_potential_at m x yi_1 yi i)) =
          Inr (pot m x (y ! (i - 1)) (y ! i) i)"
      using i t by (auto simp: e log_potential_at_ok[OF b v])
  qed
  moreover have "\<And>i log_p. rbind (np_get y (int i - 1)) (\<lambda>yi_1.
          rbind (np_get y (int i)) (\<lambda>yi.
          rbind (log_potential_at m x yi_1 yi i) (\<lambda>v. Inr (log_p + v)))) =
        rbind (rbind (np_get y (int i - 1)) (\<lambda>yi_1.
                 rbind (np_get y (int i)) (\<lambda>yi. log_potential_at m x yi_1 yi i)))
            (\<lambda>v. Inr (log_p + v))"
    by (simp add: rbind_def split: sum.splits)
  ultimately show ?thesis
    by (simp add: path_potential_def path_sum_def r)
qed

lemma log_potential_ok:
  assumes b: "feature_space_built m" and v: "in_vocabulary m x" and n: "3 \<le> length x"
    and y: "list_all (\<lambda>t. t < ntags) y"
  shows "log_potential m x y None None =
           Inr (path_sum m x y -
                lse (map2 (+) (fwd (potentials m x) (length x - 2))
                              (bwd (potentials m x) (length x - 2) 0)))"
  using log_potential_matrix_ok[OF b v] log_alpha_ok[OF shaped_potentials n, of m m]
    log_z_ok[OF shaped_potentials n, of m m] path_potential_ok[OF b v y]
  by (simp add: log_potential_def default_M_def default_alpha_def)

lemma pot_uniform:
  assumes b: "feature_space_built m" and v: "in_vocabulary m x" and t: "yi_1 < ntags" "yi < ntags"
    and w: "weights m = replicate (nfeatures m) c"
  shows "pot m x yi_1 yi i = real (length (active_keys x yi_1 yi i)) * c"
proof -
  have "map (\<lambda>f. weights m ! the (feature_index m f)) (active_keys x yi_1 yi i) =
        map (\<lambda>f. c) (active_keys x yi_1 yi i)"
  proof (rule map_cong[OF refl])
    fix f assume "f \<in> set (active_keys x yi_1 yi i)"
    from built_known[OF b active_keys_known[OF v t this]] w
    show "weights m ! the (feature_index m f) = c" by auto
  qed
  then show ?thesis by (simp add: pot_def sum_list_replicate map_replicate_const)
qed


section \<open>The smallest training run, evaluated\<close>

text \<open>The sentence of the example corpus: start sentinel, the character \<open>a\<close>, end sentinel.\<close>

definition example_sentence :: "nat list" where
  "example_sentence = [0, 2, 1]"

lemma example_vocabulary: "in_vocabulary example_model example_sentence"
  by (simp add: in_vocabulary_def example_model_facts(3) example_sentence_def)

lemma length_example_sentence [simp]: "length example_sentence = 3"
  by (simp add: example_sentence_def)

lemma example_pot:
  assumes "s < ntags" "t < ntags" "i = 1 \<or> i = 2"
  shows "pot example_model example_sentence s t i = 1 / 27"
proof -
  have w: "weights example_model = replicate (nfeatures example_model) (1 / 108)"
    by (simp add: example_model_facts)
  have l: "length (active_keys example_sentence s t i) = 4"
    using assms(3)
    by (auto simp: active_keys_def U_feature_pos_def B_feature_pos_def example_sentence_def)
  show ?thesis
    unfolding pot_uniform[OF example_model_facts(2) example_vocabulary assms(1,2) w] l by simp
qed

lemma replicate_4: "replicate 4 a = [a, a, a, a]"
  by (simp add: numeral_eq_Suc)

lemma example_potentials:
  "potentials example_model example_sentence =
     [replicate 4 (replicate 4 0), replicate 4 (replicate 4 (1 / 27)),
      replicate 4 (replicate 4 (1 / 27))]"
proof -
  have u: "[1..<length example_sentence] = [1, 2]" by (simp add: upt_rec)
  have t: "(0::nat) < ntags" "Suc 0 < ntags" "(2::nat) < ntags" "(3::nat) < ntags"
    by (simp_all add: ntags_def)
  show ?thesis
    unfolding potentials_def u ntags_upt
    by (simp add: example_pot t ntags_def replicate_4)
qed

lemma example_log_z:
  "lse (map2 (+) (fwd (potentials example_model example_sentence) 1)
                 (bwd (potentials example_model example_sentence) 1 0)) = 2 / 27 + ln 4"
proof -
  have "fwd (potentials example_model example_sentence) 1 = replicate 4 (1 / 27)"
    by (simp add: example_potentials start_index_def replicate_4)
  moreover have "bwd (potentials example_model example_sentence) 1 0 = replicate 4 (1 / 27)"
    by (simp add: example_potentials end_index_def replicate_4)
  moreover have "ln (4 * exp (2 / 27 :: real)) = 2 / 27 + ln 4"
    by (simp add: ln_mult)
  ultimately show ?thesis
    by (simp add: lse_def replicate_4)
qed

lemma example_log_potential:
  assumes "t < ntags"
  shows "log_potential example_model example_sentence [start_index, t, end_index] None None =
           Inr (- (1 / 27) - ln 4)"
proof -
  have y: "list_all (\<lambda>t. t < ntags) [start_index, t, end_index]" using assms by simp
  have p: "path_sum example_model example_sentence [start_index, t, end_index] = 1 / 27"
    using assms by (simp add: path_sum_def example_pot upt_rec)
  have n: "3 \<le> length example_sentence" by simp
  have l: "length example_sentence - 2 = 1" by simp
  show ?thesis
    unfolding log_potential_ok[OF example_model_facts(2) example_vocabulary n y] l p example_log_z
    by simp
qed

text \<open>
  C1. On the model of the smallest training run, the sentence \<open>[0, 2, 1]\<close> (start
  sentinel, one token, end sentinel) has four tag paths. \<open>log_potential\<close> returns
  \<open>- 1/27 - ln 4\<close> for each of them, so the exponentials sum to \<open>exp (- 1/27)\<close>, which is
  less than 1: the sum over the paths leaves out the transition into the end sentinel
  that \<open>log_z\<close> counts.
\<close>

theorem log_potential_not_normalised:
  "map (\<lambda>ys. log_potential example_model [0, 2, 1] (start_index # ys @ [end_index]) None None)
     (List.n_lists 1 [0..<ntags]) = replicate 4 (Inr (- (1 / 27) - ln 4)) \<and>
   (\<Sum>ys\<leftarrow>List.n_lists 1 [0..<ntags]. exp (- (1 / 27) - ln 4 :: real)) = exp (- (1 / 27)) \<and>
   exp (- (1 / 27)) < (1::real)"
proof -
  have t: "(0::nat) < ntags" "Suc 0 < ntags" "(2::nat) < ntags" "(3::nat) < ntags"
    by (simp_all add: ntags_def)
  have n: "List.n_lists 1 [0..<ntags] = [[0], [1], [2], [3]]"
    by (simp add: ntags_upt)
  have "exp (- (1 / 27) - ln 4) = exp (- (1 / 27)) / (4::real)"
    by (simp add: exp_diff)
  then show ?thesis
    unfolding n example_sentence_def[symmetric]
    by (simp add: example_log_potential t replicate_4)
qed

section \<open>The transition table and the accumulation of the expected counts\<close>

text \<open>The table \<open>transition_table\<close> returns on the tables of the forward and backward passes.\<close>

definition P_table :: "real list list list \<Rightarrow> nat \<Rightarrow> real \<Rightarrow> real list list list" where
  "P_table M n z =
     map (map (map exp))
       (replicate ntags (replicate ntags 0) #
        map (\<lambda>i. map (\<lambda>s. map (\<lambda>t.
               if i = 1 \<and> s \<noteq> start_index then 0
               else fwd M (i - 1) ! s + M ! i ! s ! t + bwd M n (n - i) ! t - z)
             [0..<ntags]) [0..<ntags]) [1..<n + 1])"

lemma transition_cell:
  assumes M: "shaped M (n + 2)" and i: "1 \<le> i" "i \<le> n" and s: "s < ntags" and t: "t < ntags"
  shows "rbind (get2 (map (fwd M) [0..<n + 1]) (int i - 1) s) (\<lambda>a.
         rbind (get_cell M (int i) s t) (\<lambda>v.
         rbind (get2 (beta_table M n) (int i) t) (\<lambda>b. Inr (a + v + b - z)))) =
         Inr (fwd M (i - 1) ! s + M ! i ! s ! t + bwd M n (n - i) ! t - z)"
proof -
  have e: "nat (int i - 1) = i - 1" using i by simp
  have a: "get2 (map (fwd M) [0..<n + 1]) (int i - 1) s = Inr (fwd M (i - 1) ! s)"
    using i s length_fwd[OF M, of "i - 1"] by (auto simp: get2_def e simp del: upt_Suc)
  have b: "get2 (beta_table M n) (int i) t = Inr (bwd M n (n - i) ! t)"
    using i t length_bwd[OF M, of n "n - i"] by (simp add: get2_def beta_table_def del: upt_Suc)
  have c: "get_cell M (int i) s t = Inr (M ! i ! s ! t)"
    using get_cell_shaped[OF M _ s t, of i] i by simp
  show ?thesis by (simp only: a b c rbind_Inr)
qed

lemma transition_table_ok:
  assumes M: "shaped M (length x)" and n: "3 \<le> length x"
  shows "transition_table x M (map (fwd M) [0..<length x - 1]) (beta_table M (length x - 2)) z =
           Inr (P_table M (length x - 2) z)"
proof -
  define n where "n = length x - 2"
  have lx: "length x = n + 2" and n1: "1 \<le> n" using n by (simp_all add: n_def)
  have nx: "int (length x) - 2 = int n" "length x - 1 = n + 1" using lx by simp_all
  have M': "shaped M (n + 2)" using M lx by simp
  let ?cell = "\<lambda>i s t. if i = 1 \<and> s \<noteq> start_index then 0
               else fwd M (i - 1) ! s + M ! i ! s ! t + bwd M n (n - i) ! t - z"
  have "mapM (\<lambda>i. mapM (\<lambda>yi_1. mapM (\<lambda>yi.
                if i = 1 \<and> yi_1 \<noteq> start_index then Inr 0
                else rbind (get2 (map (fwd M) [0..<n + 1]) (int i - 1) yi_1) (\<lambda>a.
                     rbind (get_cell M (int i) yi_1 yi) (\<lambda>v.
                     rbind (get2 (beta_table M n) (int i) yi) (\<lambda>b.
                       Inr (a + v + b - z)))))
              [0..<ntags]) [0..<ntags]) [1..<n + 1] =
        Inr (map (\<lambda>i. map (\<lambda>s. map (\<lambda>t. ?cell i s t) [0..<ntags]) [0..<ntags]) [1..<n + 1])"
  proof (intro mapM_Inr)
    fix i s t assume "i \<in> set [1..<n + 1]" "s \<in> set [0..<ntags]" "t \<in> set [0..<ntags]"
    then have "1 \<le> i" "i \<le> n" "s < ntags" "t < ntags" by auto
    from transition_cell[OF M' this, of z]
    show "(if i = 1 \<and> s \<noteq> start_index then Inr 0
           else rbind (get2 (map (fwd M) [0..<n + 1]) (int i - 1) s) (\<lambda>a.
                rbind (get_cell M (int i) s t) (\<lambda>v.
                rbind (get2 (beta_table M n) (int i) t) (\<lambda>b. Inr (a + v + b - z))))) =
          Inr (?cell i s t)"
      by simp
  qed
  moreover have "nat (int n + 1) = n + 1" by simp
  moreover have "take 1 (replicate (n + 1) (replicate ntags (replicate ntags (0::real)))) =
                 [replicate ntags (replicate ntags 0)]"
    by simp
  ultimately show ?thesis
    unfolding transition_table_def np_zeros3_def Let_def nx n_def[symmetric] P_table_def
    by (simp only: rbind_Inr if_False append.simps)
       (simp add: del: upt_Suc replicate.simps)
qed


lemma shaped_P_table: "shaped (P_table M n z) (n + 1)"
  by (auto simp: shaped_def P_table_def list_all_iff simp del: upt_Suc)

lemma np_iadd_at_nth:
  assumes "np_iadd_at g ids v = Inr g'"
  shows "length g' = length g"
    and "k < length g \<Longrightarrow> g' ! k = (if k \<in> set ids then g ! k + v else g ! k)"
  using assms by (auto simp: np_iadd_at_def split: if_splits)

lemma accumulate_step:
  assumes b: "feature_space_built m" and v: "in_vocabulary m x"
    and t: "s < ntags" "t < ntags" and c: "get_cell P (int i) s t = Inr p"
    and g: "length g = nfeatures m" and act: "list_all (\<lambda>k. k < nfeatures m) act"
  shows "\<exists>ids g'. accumulate m x P (i, s, t) (act, g) = Inr (act @ ids, g') \<and>
           active_ids m x s t i = Inr ids \<and> length g' = nfeatures m \<and>
           list_all (\<lambda>k. k < nfeatures m) (act @ ids) \<and>
           (\<forall>k<nfeatures m. g' ! k = (if k \<in> set (act @ ids) then g ! k + p else g ! k))"
proof -
  obtain ids where ids: "active_ids m x s t i = Inr ids"
    using active_ids_ok[OF b v t] by blast
  have bound: "list_all (\<lambda>k. k < nfeatures m) (act @ ids)"
    using act active_ids_bound[OF b v t ids] by simp
  then obtain g' where g': "np_iadd_at g (act @ ids) p = Inr g'"
    using g by (simp add: np_iadd_at_def)
  have "accumulate m x P (i, s, t) (act, g) = Inr (act @ ids, g')"
    by (simp add: accumulate_def ids c g' Let_def)
  with ids bound np_iadd_at_nth[OF g'] g show ?thesis by auto
qed

lemma accumulate_loop:
  assumes b: "feature_space_built m" and v: "in_vocabulary m x"
    and ts: "list_all (\<lambda>(i, s, t). s < ntags \<and> t < ntags \<and>
                         get_cell P (int i) s t = Inr (P ! i ! s ! t)) ts"
    and k: "k \<in> set act"
  shows "length g = nfeatures m \<Longrightarrow> list_all (\<lambda>k. k < nfeatures m) act \<Longrightarrow>
         \<exists>act' g'. foldM (accumulate m x P) ts (act, g) = Inr (act', g') \<and>
           g' ! k = g ! k + (\<Sum>(i, s, t)\<leftarrow>ts. P ! i ! s ! t)"
  using ts k
proof (induction ts arbitrary: act g)
  case Nil
  then show ?case by simp
next
  case (Cons a ts)
  obtain i s t where a: "a = (i, s, t)" by (cases a) auto
  from Cons.prems(3) a have c: "s < ntags" "t < ntags" "get_cell P (int i) s t = Inr (P ! i ! s ! t)"
    and rest: "list_all (\<lambda>(i, s, t). s < ntags \<and> t < ntags \<and>
                         get_cell P (int i) s t = Inr (P ! i ! s ! t)) ts"
    by simp_all
  from accumulate_step[OF b v c Cons.prems(1,2)] obtain ids g1 where
    s1: "accumulate m x P (i, s, t) (act, g) = Inr (act @ ids, g1)" "length g1 = nfeatures m"
      "list_all (\<lambda>k. k < nfeatures m) (act @ ids)"
      "\<forall>k<nfeatures m. g1 ! k = (if k \<in> set (act @ ids) then g ! k + P ! i ! s ! t else g ! k)"
    by blast
  have kb: "k < nfeatures m" using Cons.prems(2,4) by (auto simp: list_all_iff)
  have k1: "g1 ! k = g ! k + P ! i ! s ! t" using s1(4) kb Cons.prems(4) by simp
  have kin: "k \<in> set (act @ ids)" using Cons.prems(4) by simp
  from Cons.IH[OF s1(2,3) rest kin] obtain act' g' where
    "foldM (accumulate m x P) ts (act @ ids, g1) = Inr (act', g')"
    "g' ! k = g1 ! k + (\<Sum>(i, s, t)\<leftarrow>ts. P ! i ! s ! t)" by blast
  with s1(1) k1 a show ?case by simp
qed


lemma transitions_cells:
  "list_all (\<lambda>(i, s, t). s < ntags \<and> t < ntags \<and>
       get_cell (P_table M n z) (int i) s t = Inr (P_table M n z ! i ! s ! t)) (transitions (int n))"
proof -
  have "\<And>i s t. (i, s, t) \<in> set (transitions (int n)) \<Longrightarrow> 1 \<le> i \<and> i < n + 1 \<and> s < ntags \<and> t < ntags"
    by (auto simp: transitions_def nat_add_distrib simp del: upt_Suc)
  then show ?thesis
    using get_cell_shaped[OF shaped_P_table, of _ n _ _ M z]
    by (fastforce simp: list_all_iff)
qed

lemma model_gradient_x_unfold:
  assumes b: "feature_space_built m" and v: "in_vocabulary m x" and n: "3 \<le> length x"
  shows "model_gradient_x m x None None None =
           rbind (foldM (accumulate m x
                    (P_table (potentials m x) (length x - 2)
                       (lse (map2 (+) (fwd (potentials m x) (length x - 2))
                                      (bwd (potentials m x) (length x - 2) 0)))))
                    (transitions (int (length x - 2)))
                    ([], replicate (length (weights m)) 0))
             (\<lambda>(activate_feature, gradient). Inr gradient)"
proof -
  have e: "int (length x) - 2 = int (length x - 2)" using n by simp
  show ?thesis
    unfolding model_gradient_x_def Let_def e
    using log_potential_matrix_ok[OF b v] log_alpha_ok[OF shaped_potentials n, of m m]
      log_beta_ok[OF shaped_potentials n, of m m] log_z_ok[OF shaped_potentials n, of m m]
      transition_table_ok[OF shaped_potentials n, of m]
    by (simp add: default_M_def default_alpha_def default_beta_def)
qed




section \<open>The expected counts of the smallest training run\<close>

lemma example_P_table:
  "P_table (potentials example_model example_sentence) 1 (2 / 27 + ln 4) =
     [replicate 4 (replicate 4 1),
      [replicate 4 1, replicate 4 1, replicate 4 1, replicate 4 (1 / 4)]]"
proof -
  have u: "[1..<1 + 1] = [1::nat]" by (simp add: upt_rec)
  have e: "exp (- ln 4) = (1 / 4 :: real)" by (simp add: exp_minus)
  show ?thesis
    unfolding P_table_def u ntags_upt
    by (simp add: example_potentials start_index_def end_index_def replicate_4 ntags_def e)
qed

lemma example_run:
  defines "M \<equiv> potentials example_model example_sentence"
  shows "log_potential_matrix example_model example_sentence = Inr M"
    and "log_alpha example_model example_sentence (Some M) = Inr (map (fwd M) [0..<2])"
    and "log_beta example_model example_sentence (Some M) = Inr (beta_table M 1)"
    and "log_z example_model example_sentence (Some M) (Some (map (fwd M) [0..<2])) =
           Inr (2 / 27 + ln 4)"
    and "transition_table example_sentence M (map (fwd M) [0..<2]) (beta_table M 1) (2 / 27 + ln 4) =
           Inr [replicate 4 (replicate 4 1),
                [replicate 4 1, replicate 4 1, replicate 4 1, replicate 4 (1 / 4)]]"
proof -
  have n: "3 \<le> length example_sentence" by simp
  have l: "length example_sentence - 1 = 2" "length example_sentence - 2 = 1" by simp_all
  have s: "shaped M (length example_sentence)" unfolding M_def by (rule shaped_potentials)
  show "log_potential_matrix example_model example_sentence = Inr M"
    unfolding M_def by (rule log_potential_matrix_ok[OF example_model_facts(2) example_vocabulary])
  show "log_alpha example_model example_sentence (Some M) = Inr (map (fwd M) [0..<2])"
    using log_alpha_ok[OF s n, of example_model] unfolding l .
  show "log_beta example_model example_sentence (Some M) = Inr (beta_table M 1)"
    using log_beta_ok[OF s n, of example_model] unfolding l .
  show "log_z example_model example_sentence (Some M) (Some (map (fwd M) [0..<2])) =
           Inr (2 / 27 + ln 4)"
    using log_z_ok[OF s n, of example_model] unfolding l M_def example_log_z .
  show "transition_table example_sentence M (map (fwd M) [0..<2]) (beta_table M 1) (2 / 27 + ln 4) =
           Inr [replicate 4 (replicate 4 1),
                [replicate 4 1, replicate 4 1, replicate 4 1, replicate 4 (1 / 4)]]"
    using transition_table_ok[OF s n, of "2 / 27 + ln 4"] unfolding l M_def example_P_table .
qed

text \<open>
  C2. On the smallest training run, with \<open>M\<close>, \<open>alpha\<close>, \<open>beta\<close> and \<open>z\<close> as the program
  computes them for the sentence \<open>[0, 2, 1]\<close>, the table \<open>P\<close> has the value 1, not 0, in
  every cell \<open>P[1, tagPrev, tagCur]\<close> with \<open>tagPrev\<close> other than the start tag 3: the loop
  leaves a zero in those cells and \<open>np.exp\<close> then maps it to 1. The row of the start tag
  holds the probabilities \<open>1/4\<close>.
\<close>

theorem transition_table_boundary_is_one:
  "\<exists>M alpha beta z P.
     log_potential_matrix example_model [0, 2, 1] = Inr M \<and>
     log_alpha example_model [0, 2, 1] (Some M) = Inr alpha \<and>
     log_beta example_model [0, 2, 1] (Some M) = Inr beta \<and>
     log_z example_model [0, 2, 1] (Some M) (Some alpha) = Inr z \<and>
     transition_table [0, 2, 1] M alpha beta z = Inr P \<and>
     P ! 1 = [[1, 1, 1, 1], [1, 1, 1, 1], [1, 1, 1, 1], [1 / 4, 1 / 4, 1 / 4, 1 / 4]] \<and>
     start_index = 3"
proof -
  have "[replicate 4 (replicate 4 1),
         [replicate 4 1, replicate 4 1, replicate 4 1, replicate 4 (1 / 4)]] ! 1 =
        [[1, 1, 1, 1], [1, 1, 1, 1], [1, 1, 1, 1], [1 / 4, 1 / 4, 1 / 4, 1 / 4 :: real]]"
    by (simp add: replicate_4)
  with example_run show ?thesis
    unfolding example_sentence_def[symmetric] by (metis start_index_def)
qed


lemma accumulate_from_first:
  assumes b: "feature_space_built m" and v: "in_vocabulary m x"
    and ts: "list_all (\<lambda>(i, s, t). s < ntags \<and> t < ntags \<and>
                         get_cell P (int i) s t = Inr (P ! i ! s ! t)) ((i, s, t) # ts)"
    and f: "f \<in> set (active_keys x s t i)" and g: "length g = nfeatures m"
  shows "\<exists>act' g'. foldM (accumulate m x P) ((i, s, t) # ts) ([], g) = Inr (act', g') \<and>
           g' ! the (feature_index m f) =
             g ! the (feature_index m f) + (\<Sum>(i, s, t)\<leftarrow>(i, s, t) # ts. P ! i ! s ! t)"
proof -
  let ?k = "the (feature_index m f)"
  from ts have c: "s < ntags" "t < ntags" "get_cell P (int i) s t = Inr (P ! i ! s ! t)"
    and rest: "list_all (\<lambda>(i, s, t). s < ntags \<and> t < ntags \<and>
                         get_cell P (int i) s t = Inr (P ! i ! s ! t)) ts"
    by simp_all
  have la: "list_all (\<lambda>k. k < nfeatures m) []" by simp
  from accumulate_step[OF b v c g la] obtain ids g1 where
    s1: "accumulate m x P (i, s, t) ([], g) = Inr ([] @ ids, g1)"
      "active_ids m x s t i = Inr ids" "length g1 = nfeatures m"
      "list_all (\<lambda>k. k < nfeatures m) ([] @ ids)"
      "\<forall>k<nfeatures m. g1 ! k = (if k \<in> set ([] @ ids) then g ! k + P ! i ! s ! t else g ! k)"
    by blast
  have kin: "?k \<in> set ([] @ ids)"
    using s1(2) f by (auto simp: active_ids_ok[OF b v c(1,2)])
  then have kb: "?k < nfeatures m" using s1(4) by (auto simp: list_all_iff)
  have k1: "g1 ! ?k = g ! ?k + P ! i ! s ! t" using s1(5) kb kin by simp
  from accumulate_loop[OF b v rest kin s1(3,4)] obtain act' g' where
    "foldM (accumulate m x P) ts ([] @ ids, g1) = Inr (act', g')"
    "g' ! ?k = g1 ! ?k + (\<Sum>(i, s, t)\<leftarrow>ts. P ! i ! s ! t)" by blast
  with s1(1) k1 show ?thesis by simp
qed

lemma example_transitions:
  "transitions (int 1) =
     [(1, 0, 0), (1, 0, 1), (1, 0, 2), (1, 0, 3), (1, 1, 0), (1, 1, 1), (1, 1, 2), (1, 1, 3),
      (1, 2, 0), (1, 2, 1), (1, 2, 2), (1, 2, 3), (1, 3, 0), (1, 3, 1), (1, 3, 2), (1, 3, 3)]"
proof -
  have u: "[1..<nat (int 1 + 1)] = [1::nat]" by (simp add: upt_rec)
  show ?thesis unfolding transitions_def u ntags_upt by simp
qed

lemma example_transitions_1:
  "transitions 1 =
     [(1, 0, 0), (1, 0, 1), (1, 0, 2), (1, 0, 3), (1, 1, 0), (1, 1, 1), (1, 1, 2), (1, 1, 3),
      (1, 2, 0), (1, 2, 1), (1, 2, 2), (1, 2, 3), (1, 3, 0), (1, 3, 1), (1, 3, 2), (1, 3, 3)]"
  using example_transitions by simp

lemma example_active:
  "i = 1 \<Longrightarrow> U 0 2 0 \<in> set (active_keys example_sentence s t i) \<longleftrightarrow> t = 0"
  by (auto simp: active_keys_def U_feature_pos_def B_feature_pos_def example_sentence_def)

text \<open>
  C3. On the smallest training run and the sentence \<open>[0, 2, 1]\<close>, take the feature
  \<open>('U', 0, 2, 0)\<close>: it is active at position 1 for the current tag 0, whatever the
  previous tag. The sum of \<open>P[i, tagPrev, tagCur]\<close> over the transitions at which it is
  active is \<open>13/4\<close>; \<open>model_gradient_x\<close> returns 13 in its slot, the sum of \<open>P\<close> over all
  sixteen transitions, because \<open>activate_feature\<close> is never emptied between transitions.
\<close>

theorem model_gradient_x_accumulates_every_transition:
  "\<exists>M alpha beta z P g k.
     log_potential_matrix example_model [0, 2, 1] = Inr M \<and>
     log_alpha example_model [0, 2, 1] (Some M) = Inr alpha \<and>
     log_beta example_model [0, 2, 1] (Some M) = Inr beta \<and>
     log_z example_model [0, 2, 1] (Some M) (Some alpha) = Inr z \<and>
     transition_table [0, 2, 1] M alpha beta z = Inr P \<and>
     model_gradient_x example_model [0, 2, 1] None None None = Inr g \<and>
     feature_index example_model (U 0 2 0) = Some k \<and>
     g ! k = 13 \<and>
     (\<Sum>(i, s, t)\<leftarrow>filter (\<lambda>(i, s, t). U 0 2 0 \<in> set (active_keys [0, 2, 1] s t i))
                      (transitions 1). P ! i ! s ! t) = 13 / 4"
proof -
  let ?P = "[replicate 4 (replicate 4 1),
             [replicate 4 1, replicate 4 1, replicate 4 1, replicate 4 (1 / 4 :: real)]]"
  let ?m = example_model
  let ?x = example_sentence
  have n: "3 \<le> length ?x" by simp
  have l: "length ?x - 2 = 1" by simp
  have P: "P_table (potentials ?m ?x) (length ?x - 2)
             (lse (map2 (+) (fwd (potentials ?m ?x) (length ?x - 2))
                            (bwd (potentials ?m ?x) (length ?x - 2) 0))) = ?P"
    unfolding l example_log_z example_P_table ..
  have cells: "list_all (\<lambda>(i, s, t). s < ntags \<and> t < ntags \<and>
                 get_cell ?P (int i) s t = Inr (?P ! i ! s ! t))
               ((1, 0, 0) # tl (transitions 1))"
    using transitions_cells[of "potentials ?m ?x" 1 "2 / 27 + ln 4"]
    unfolding example_P_table example_transitions example_transitions_1 by simp
  have f: "U 0 2 0 \<in> set (active_keys ?x 0 0 1)" by (simp add: example_active)
  have g0: "length (replicate (length (weights ?m)) (0::real)) = nfeatures ?m"
    by (simp add: example_model_facts)
  from built_known[OF example_model_facts(2), of "U 0 2 0"]
  obtain k where k: "feature_index ?m (U 0 2 0) = Some k" "k < length (weights ?m)"
    by (auto simp: set_all_features example_model_facts(3) U_feature_pos_def ntags_def)
  from accumulate_from_first[OF example_model_facts(2) example_vocabulary cells f g0]
  obtain act' g' where r:
    "foldM (accumulate ?m ?x ?P) ((1, 0, 0) # tl (transitions 1))
       ([], replicate (length (weights ?m)) 0) = Inr (act', g')"
    "g' ! k = replicate (length (weights ?m)) 0 ! k +
       (\<Sum>(i, s, t)\<leftarrow>(1, 0, 0) # tl (transitions 1). ?P ! i ! s ! t)"
    using k(1) by auto
  have tr: "(1, 0, 0) # tl (transitions 1) = transitions 1"
    unfolding example_transitions_1 by simp
  have gk: "g' ! k = 13"
    using r(2) k(2) unfolding example_transitions_1 by (simp add: replicate_4)
  have mg: "model_gradient_x ?m ?x None None None = Inr g'"
    unfolding model_gradient_x_unfold[OF example_model_facts(2) example_vocabulary n] P
    using r(1) unfolding tr l of_nat_1 by simp
  have claimed: "(\<Sum>(i, s, t)\<leftarrow>filter (\<lambda>(i, s, t). U 0 2 0 \<in> set (active_keys ?x s t i))
                      (transitions 1). ?P ! i ! s ! t) = 13 / 4"
    unfolding example_transitions_1 by (simp add: example_active replicate_4)
  from example_run mg k(1) gk claimed show ?thesis
    unfolding example_sentence_def[symmetric] by blast
qed

section \<open>Words outside the vocabulary\<close>

lemma mapM_Inl_or_Inr:
  "(\<And>a. a \<in> set as \<Longrightarrow> f a = Inl e \<or> (\<exists>b. f a = Inr b)) \<Longrightarrow>
     mapM f as = Inl e \<or> (\<exists>bs. mapM f as = Inr bs)"
proof (induction as)
  case Nil
  then show ?case by simp
next
  case (Cons a as)
  from Cons.prems[of a] consider "f a = Inl e" | b where "f a = Inr b" by auto
  then show ?case
  proof cases
    case 1
    then show ?thesis by simp
  next
    case 2
    with Cons.IH Cons.prems show ?thesis by auto
  qed
qed

lemma log_potential_at_unknown_key:
  assumes b: "feature_space_built m" and f: "f \<in> set (active_keys x s t i)"
    and u: "f \<notin> set (all_features (nwords m))"
  shows "log_potential_at m x s t i = Inl KeyError"
proof -
  have "mapM (dict_get (feature_index m)) (active_keys x s t i) = Inl KeyError"
  proof (rule mapM_Inl)
    fix a show "dict_get (feature_index m) a = Inl KeyError \<or> (\<exists>b. dict_get (feature_index m) a = Inr b)"
      by (simp add: dict_get_def split: option.splits)
  next
    from built_unknown[OF b u]
    have "dict_get (feature_index m) f = Inl KeyError" by (simp add: dict_get_def)
    with f show "\<exists>a\<in>set (active_keys x s t i). dict_get (feature_index m) a = Inl KeyError"
      by blast
  qed
  then show ?thesis by (simp add: log_potential_at_def active_ids_def)
qed

lemma log_potential_at_KeyError_or_value:
  assumes b: "feature_space_built m"
  shows "log_potential_at m x s t i = Inl KeyError \<or> (\<exists>v. log_potential_at m x s t i = Inr v)"
proof (cases "set (active_keys x s t i) \<subseteq> set (all_features (nwords m))")
  case False
  then show ?thesis using log_potential_at_unknown_key[OF b] by blast
next
  case True
  have ids: "active_ids m x s t i = Inr (map (\<lambda>f. the (feature_index m f)) (active_keys x s t i))"
    unfolding active_ids_def
  proof (rule mapM_Inr)
    fix f assume "f \<in> set (active_keys x s t i)"
    with True have "f \<in> set (all_features (nwords m))" by blast
    from built_known[OF b this] obtain k where "feature_index m f = Some k" by blast
    then show "dict_get (feature_index m) f = Inr (the (feature_index m f))"
      by (simp add: dict_get_def)
  qed
  have "mapM (\<lambda>k. np_get (weights m) (int k))
          (map (\<lambda>f. the (feature_index m f)) (active_keys x s t i)) =
        Inr (map (\<lambda>k. weights m ! k) (map (\<lambda>f. the (feature_index m f)) (active_keys x s t i)))"
  proof (rule mapM_Inr)
    fix k assume "k \<in> set (map (\<lambda>f. the (feature_index m f)) (active_keys x s t i))"
    then obtain f where f: "f \<in> set (active_keys x s t i)" "k = the (feature_index m f)" by auto
    with True have "f \<in> set (all_features (nwords m))" by blast
    from built_known[OF b this] f(2)
    show "np_get (weights m) (int k) = Inr (weights m ! k)" by auto
  qed
  then show ?thesis by (simp add: log_potential_at_def ids)
qed

lemma unseen_word_in_window:
  assumes j: "j < length x" "nwords m \<le> x ! j" and i: "int i - 2 \<le> int j" "int j \<le> int i + 2"
  shows "U (int j - int i) (x ! j) t \<in> set (active_keys x s t i)"
    and "U (int j - int i) (x ! j) t \<notin> set (all_features (nwords m))"
proof -
  have "int j - int i \<in> set U_feature_pos"
    using i by (auto simp: U_feature_pos_def)
  then show "U (int j - int i) (x ! j) t \<in> set (active_keys x s t i)"
    using j by (auto simp: active_keys_def image_iff intro!: bexI[of _ "int j - int i"])
  show "U (int j - int i) (x ! j) t \<notin> set (all_features (nwords m))"
    using j by (auto simp: set_all_features)
qed

lemma log_potential_matrix_KeyError:
  assumes b: "feature_space_built m" and l: "2 \<le> length x" and v: "\<not> in_vocabulary m x"
  shows "log_potential_matrix m x = Inl KeyError"
proof -
  from v obtain j where j: "j < length x" "nwords m \<le> x ! j"
    by (auto simp: in_vocabulary_def list_all_length not_less)
  define i where "i = (if j = 0 then 1 else j)"
  have i: "i \<in> set [1..<length x]" "int i - 2 \<le> int j" "int j \<le> int i + 2"
    using j l by (auto simp: i_def)
  let ?row = "\<lambda>i tag1. mapM (\<lambda>tag2. log_potential_at m x tag1 tag2 i) [0..<ntags]"
  let ?mat = "\<lambda>i. mapM (?row i) [0..<ntags]"
  have at: "\<And>s t. log_potential_at m x s t i = Inl KeyError"
    using log_potential_at_unknown_key[OF b unseen_word_in_window[OF j i(2,3)]] .
  have zero: "0 \<in> set [0..<ntags]" by simp
  have row: "\<And>tag1. ?row i tag1 = Inl KeyError"
    by (rule mapM_Inl) (use at zero in blast)+
  have mat: "?mat i = Inl KeyError"
    by (rule mapM_Inl) (use row zero in blast)+
  have row_any: "\<And>i tag1. ?row i tag1 = Inl KeyError \<or> (\<exists>r. ?row i tag1 = Inr r)"
    by (rule mapM_Inl_or_Inr) (rule log_potential_at_KeyError_or_value[OF b])
  have mat_any: "\<And>i. ?mat i = Inl KeyError \<or> (\<exists>r. ?mat i = Inr r)"
    by (rule mapM_Inl_or_Inr) (rule row_any)
  have "mapM ?mat [1..<length x] = Inl KeyError"
    by (rule mapM_Inl) (use mat_any mat i(1) in blast)+
  then show ?thesis
    by (simp add: log_potential_matrix_def np_zeros3_def)
qed

lemma inference_viterbi_KeyError:
  assumes b: "feature_space_built m" and l: "2 \<le> length x" and v: "\<not> in_vocabulary m x"
  shows "inference_viterbi m x None = Inl KeyError"
proof -
  have "x \<noteq> []" using l by auto
  then show ?thesis
    using log_potential_matrix_KeyError[OF assms]
    by (simp add: inference_viterbi_def viterbi_tables_def np_zeros2_def default_M_def Let_def)
qed

text \<open>
  C6, as the program has it. On a model whose feature space has been enumerated, a word
  id outside the vocabulary at position \<open>j\<close> of \<open>x\<close> makes \<open>log_potential_at\<close> raise
  KeyError at every position \<open>i\<close> whose window \<open>i - 2, ..., i + 2\<close> contains \<open>j\<close>, and makes
  \<open>inference_viterbi\<close> raise KeyError on the sentinel-bracketed \<open>x\<close>: no tag path is
  returned.
\<close>

theorem unseen_word_raises_KeyError:
  assumes "feature_space_built m" and "2 \<le> length x" and "j < length x" and "nwords m \<le> x ! j"
    and "int i - 2 \<le> int j" and "int j \<le> int i + 2"
  shows "log_potential_at m x yi_1 yi i = Inl KeyError \<and>
         inference_viterbi m x None = Inl KeyError"
proof -
  have "\<not> in_vocabulary m x"
    using assms(3,4) by (auto simp: in_vocabulary_def list_all_length)
  with assms show ?thesis
    using log_potential_at_unknown_key[OF assms(1) unseen_word_in_window[OF assms(3-6)]]
      inference_viterbi_KeyError[OF assms(1,2)]
    by simp
qed

theorem unseen_word_raises_KeyError_witness:
  "feature_space_built example_model \<and> 2 \<le> length [0::nat, 5, 1] \<and>
   (1::nat) < length [0::nat, 5, 1] \<and> nwords example_model \<le> [0, 5, 1] ! 1 \<and>
   int 1 - 2 \<le> int 1 \<and> int 1 \<le> int 1 + 2 \<and>
   log_potential_at example_model [0, 5, 1] 3 0 1 = Inl KeyError \<and>
   inference_viterbi example_model [0, 5, 1] None = Inl KeyError"
proof -
  have h: "2 \<le> length [0::nat, 5, 1]" "(1::nat) < length [0::nat, 5, 1]"
    "nwords example_model \<le> [0, 5, 1] ! 1" "int 1 - 2 \<le> int 1" "int 1 \<le> int 1 + 2"
    by (simp_all add: example_model_facts(3))
  from unseen_word_raises_KeyError [OF example_model_facts(2) h, of 3 0]
  show ?thesis by (intro conjI example_model_facts(2) h) simp_all
qed

text \<open>
  The claim as stated fails: for the sentence \<open>[0, 5, 1]\<close>, whose word id 5 is not in the
  three-word vocabulary of the smallest training run, the decoder returns KeyError and
  no tag path.
\<close>

theorem unseen_word_counterexample:
  "nwords example_model = 3 \<and> inference_viterbi example_model [0, 5, 1] None = Inl KeyError \<and>
   log_potential_at example_model [0, 5, 1] 3 0 1 = Inl KeyError"
proof -
  have v: "\<not> in_vocabulary example_model [0, 5, 1]"
    by (simp add: in_vocabulary_def example_model_facts(3))
  have l: "2 \<le> length [0::nat, 5, 1]" by simp
  have j: "(1::nat) < length [0::nat, 5, 1]" "nwords example_model \<le> [0, 5, 1] ! 1"
    "int 1 - 2 \<le> int 1" "int 1 \<le> int 1 + 2"
    by (simp_all add: example_model_facts(3))
  show ?thesis
    using inference_viterbi_KeyError[OF example_model_facts(2) l v]
      log_potential_at_unknown_key[OF example_model_facts(2) unseen_word_in_window[OF j], of 3 0]
    by (simp add: example_model_facts(3))
qed

section \<open>The training driver\<close>


definition train_data_ok :: "crf \<Rightarrow> bool" where
  "train_data_ok m =
     (list_all (\<lambda>(x, y). in_vocabulary m x \<and> 3 \<le> length x \<and> list_all (\<lambda>t. t < ntags) y)
        (train_data m) \<and>
      length (prior_feature_count m) = nfeatures m)"

lemma train_data_ok_weights [simp]: "train_data_ok (m\<lparr>weights := w\<rparr>) = train_data_ok m"
  by (simp add: train_data_ok_def)

















section \<open>Maximum and first index of the maximum\<close>


definition maxl :: "real list \<Rightarrow> real" where
  "maxl v = fold max (tl v) (hd v)"









section \<open>Closed forms of the Viterbi tables\<close>

fun vit :: "real list list list \<Rightarrow> nat \<Rightarrow> real list" where
  "vit M 0 = replicate ntags 0"
| "vit M (Suc i) =
     (if i = 0 then M ! 1 ! start_index
      else map (\<lambda>t. maxl (map2 (+) (vit M i) (map (\<lambda>r. r ! t) (M ! Suc i)))) [0..<ntags])"

definition bp :: "real list list list \<Rightarrow> nat \<Rightarrow> nat list" where
  "bp M i =
     (if i < 2 then replicate ntags 0
      else map (\<lambda>t. first_index (map2 (+) (vit M (i - 1)) (map (\<lambda>r. r ! t) (M ! i)))
                     (maxl (map2 (+) (vit M (i - 1)) (map (\<lambda>r. r ! t) (M ! i))))) [0..<ntags])"


lemma length_bp [simp]: "length (bp M i) = ntags"
  by (simp add: bp_def)





section \<open>The decoded path\<close>










section \<open>Optimality of the decoded path\<close>












section \<open>The decoder returns a best path\<close>


definition example_pair :: "nat list" where
  "example_pair = [0, 2, 2, 1]"


lemma length_example_pair [simp]: "length example_pair = 4"
  by (simp add: example_pair_def)







end
